theory Spec2Isabelle
  imports Main "HOL-Library.Sublist"
begin

section \<open>xmlpyp: the Python processing-instruction processor\<close>

text \<open>
  A shallow embedding of \<^verbatim>\<open>xmlpyp.py\<close>. The program reads a document line by line,
  runs the Python source found in \<^verbatim>\<open><?py ... ?>\<close> tags and writes the document with
  every tag replaced by what its source printed.

  The Python interpreter (\<^verbatim>\<open>ast.parse\<close>, \<^verbatim>\<open>compile\<close>, \<^verbatim>\<open>exec\<close>) is not part of the
  program: it is a parameter of the model, a record of three functions. Strings are
  \<open>string\<close>; a character is a code point below 256.
\<close>

subsection \<open>Characters and strings\<close>

definition newline :: char where
  "newline = CHR 0x0A"

text \<open>
  \<^verbatim>\<open>\s\<close> of a \<^verbatim>\<open>str\<close> pattern and \<^verbatim>\<open>str.isspace\<close>: the code points 9 to 13, 28 to 32,
  0x85 and 0xA0 (of those below 256).
\<close>

definition is_space :: "char \<Rightarrow> bool" where
  "is_space c = (of_char c \<in> {9, 10, 11, 12, 13, 28, 29, 30, 31, 32, 133, 160 :: nat})"

text \<open>\<^verbatim>\<open>s.find(sub)\<close>: the least index at which \<open>sub\<close> occurs, \<open>None\<close> for \<^verbatim>\<open>-1\<close>.\<close>

fun str_find :: "string \<Rightarrow> string \<Rightarrow> nat option" where
  "str_find [] sub = (if sub = [] then Some 0 else None)"
| "str_find (c # s) sub =
     (if prefix sub (c # s) then Some 0 else map_option Suc (str_find s sub))"

text \<open>
  Iterating over a text stream: the lines of the document, each with its line break.
  The document is the text as the stream yields it, with \<^verbatim>\<open>\n\<close> for every line break.
\<close>

fun readlines :: "string \<Rightarrow> string list" where
  "readlines [] = []"
| "readlines (c # s) =
     (if c = newline then [c] # readlines s
      else (case readlines s of [] \<Rightarrow> [[c]] | l # ls \<Rightarrow> (c # l) # ls))"

text \<open>The decimal digits of a line number, as an f-string prints them.\<close>

fun digits :: "nat \<Rightarrow> string" where
  "digits n =
     (if n < 10 then [''0123456789'' ! n]
      else digits (n div 10) @ [''0123456789'' ! (n mod 10)])"

declare digits.simps [simp del]

definition str_int :: "int \<Rightarrow> string" where
  "str_int i = (if i < 0 then CHR ''-'' # digits (nat (- i)) else digits (nat i))"

subsection \<open>Exceptions\<close>

text \<open>
  A Python exception: a \<^verbatim>\<open>SyntaxError\<close> with its \<^verbatim>\<open>lineno\<close> and \<^verbatim>\<open>end_lineno\<close> (each an
  int or \<^verbatim>\<open>None\<close>), an \<^verbatim>\<open>AssertionError\<close>, any other exception deriving from
  \<^verbatim>\<open>Exception\<close>, or one deriving from \<^verbatim>\<open>BaseException\<close> only (\<^verbatim>\<open>SystemExit\<close>, ...).
\<close>

datatype py_exc =
    SyntaxError "int option" "int option"
  | AssertionError
  | Exc string
  | BaseExc string

fun is_Exception :: "py_exc \<Rightarrow> bool" where
  "is_Exception (BaseExc _) = False"
| "is_Exception _ = True"

text \<open>
  What leaves the processor: \<^verbatim>\<open>PythonError(e)\<close>, \<^verbatim>\<open>XmlError(msg)\<close>, or a Python exception
  that no handler of the program wraps.
\<close>

datatype error =
    PythonError py_exc
  | XmlError string
  | Propagated py_exc

subsection \<open>Syntax trees and the line-number visitor\<close>

text \<open>An attribute of a node: missing, \<^verbatim>\<open>None\<close>, or an int.\<close>

datatype attr = Missing | NoneVal | IntVal int

datatype 'a ast = Node 'a (lineno: attr) (end_lineno: attr) (children: "'a ast list")

text \<open>
  \<^verbatim>\<open>_AstLineNoModifier.visit\<close>: a node with an int \<^verbatim>\<open>lineno\<close> gets it shifted, and its
  \<^verbatim>\<open>end_lineno\<close> too, which the code asserts to be an int; then the children are
  visited. \<open>None\<close> is the failed assertion.
\<close>

fun visit :: "int \<Rightarrow> 'a ast \<Rightarrow> 'a ast option" where
  "visit lineno_add (Node x ln eln cs) =
     (case ln of
        IntVal n \<Rightarrow>
          (case eln of
             Missing \<Rightarrow>
               map_option (Node x (IntVal (n + lineno_add)) Missing)
                 (those (map (visit lineno_add) cs))
           | NoneVal \<Rightarrow> None
           | IntVal m \<Rightarrow>
               map_option (Node x (IntVal (n + lineno_add)) (IntVal (m + lineno_add)))
                 (those (map (visit lineno_add) cs)))
      | _ \<Rightarrow> map_option (Node x ln eln) (those (map (visit lineno_add) cs)))"

subsection \<open>The interpreter, a parameter\<close>

text \<open>
  \<open>ast_parse\<close> is \<^verbatim>\<open>ast.parse(source, file_name)\<close>: a tree, or the exception raised.
  \<open>py_compile\<close> is \<^verbatim>\<open>compile(src_ast, file_name, 'exec')\<close>. \<open>py_exec\<close> is
  \<^verbatim>\<open>exec(code, globals)\<close>: the exception raised if any, the namespace as the run left it,
  and the text the run wrote to \<^verbatim>\<open>sys.stdout\<close>.
\<close>

record ('a, 'c, 'ns) python =
  ast_parse :: "string \<Rightarrow> py_exc + 'a ast"
  py_compile :: "'a ast \<Rightarrow> py_exc + 'c"
  py_exec :: "'c \<Rightarrow> 'ns \<Rightarrow> py_exc option \<times> 'ns \<times> string"

subsection \<open>The processor\<close>

text \<open>
  \<^verbatim>\<open>self.out_stream\<close> is the standard output of the process (the default of \<^verbatim>\<open>main\<close>) or
  an output file or stream of its own; \<^verbatim>\<open>sys.stdout\<close> names the standard output or,
  while a document is read, the \<^verbatim>\<open>print_buffer\<close>.
\<close>

datatype stream = Stdout | OutFile

datatype stdout_target = RealStdout | PrintBuffer

text \<open>
  A \<^verbatim>\<open>Processor\<close> and the part of the process state it touches: \<open>stdout_text\<close> and
  \<open>out_file_text\<close> hold what has been written to the standard output and to the output
  file, \<open>sys_stdout\<close> says what \<^verbatim>\<open>sys.stdout\<close> names now.
\<close>

record 'ns processor =
  out_stream :: stream
  sys_stdout :: stdout_target
  stdout_text :: string
  out_file_text :: string
  code_buffer :: string
  print_buffer :: string
  exec_globals :: 'ns

definition stream_write :: "stream \<Rightarrow> string \<Rightarrow> 'ns processor \<Rightarrow> 'ns processor" where
  "stream_write f s st =
     (case f of
        Stdout \<Rightarrow> st\<lparr>stdout_text := stdout_text st @ s\<rparr>
      | OutFile \<Rightarrow> st\<lparr>out_file_text := out_file_text st @ s\<rparr>)"

text \<open>Text that running code writes to \<^verbatim>\<open>sys.stdout\<close>.\<close>

definition stdout_write :: "string \<Rightarrow> 'ns processor \<Rightarrow> 'ns processor" where
  "stdout_write s st =
     (case sys_stdout st of
        RealStdout \<Rightarrow> st\<lparr>stdout_text := stdout_text st @ s\<rparr>
      | PrintBuffer \<Rightarrow> st\<lparr>print_buffer := print_buffer st @ s\<rparr>)"

text \<open>What the output sink has received.\<close>

definition sink_text :: "'ns processor \<Rightarrow> string" where
  "sink_text st =
     (case out_stream st of Stdout \<Rightarrow> stdout_text st | OutFile \<Rightarrow> out_file_text st)"

text \<open>
  \<^verbatim>\<open>Processor.__init__\<close>: empty buffers and an empty namespace \<open>ns0\<close>; nothing written yet.
\<close>

definition init :: "stream \<Rightarrow> 'ns \<Rightarrow> 'ns processor" where
  "init out ns0 =
     \<lparr>out_stream = out, sys_stdout = RealStdout, stdout_text = [], out_file_text = [],
      code_buffer = [], print_buffer = [], exec_globals = ns0\<rparr>"

text \<open>
  \<^verbatim>\<open>Processor.exec_py(source, file_name, line_num)\<close>. The file name only labels
  diagnostics and the text of the offending line only decorates them; neither is
  modelled. \<^verbatim>\<open>SyntaxError\<close> has the attribute \<^verbatim>\<open>end_lineno\<close> in every Python that runs
  this program (3.10 and later).
\<close>

definition exec_py ::
  "('a, 'c, 'ns) python \<Rightarrow> 'ns processor \<Rightarrow> string \<Rightarrow> int \<Rightarrow> error option \<times> 'ns processor"
where
  "exec_py py st source line_num =
     (let line_num_offset = line_num - 1 in
      if \<not> line_num_offset \<ge> 0 then (Some (Propagated AssertionError), st)
      else
        (case ast_parse py source of
           Inl (SyntaxError ln eln) \<Rightarrow>
             (if line_num_offset \<noteq> 0 then
                (case ln of
                   Some n \<Rightarrow>
                     (case eln of
                        None \<Rightarrow> (Some (Propagated AssertionError), st)
                      | Some m \<Rightarrow>
                          (Some (PythonError (SyntaxError (Some (n + line_num_offset))
                                                (Some (m + line_num_offset)))), st))
                 | None \<Rightarrow> (Some (PythonError (SyntaxError ln eln)), st))
              else (Some (PythonError (SyntaxError ln eln)), st))
         | Inl e \<Rightarrow> (Some (Propagated e), st)
         | Inr src_ast \<Rightarrow>
             (case (if line_num_offset \<noteq> 0 then visit line_num_offset src_ast
                    else Some src_ast) of
                None \<Rightarrow> (Some (Propagated AssertionError), st)
              | Some shifted \<Rightarrow>
                  (case py_compile py shifted of
                     Inl e \<Rightarrow> (Some (Propagated e), st)
                   | Inr code \<Rightarrow>
                       (case py_exec py code (exec_globals st) of
                          (r, ns', printed) \<Rightarrow>
                            (let st' = stdout_write printed (st\<lparr>exec_globals := ns'\<rparr>)
                             in case r of
                                  None \<Rightarrow> (None, st')
                                | Some e \<Rightarrow>
                                    (if is_Exception e then (Some (PythonError e), st')
                                     else (Some (Propagated e), st'))))))))"

subsection \<open>The two patterns\<close>

text \<open>
  \<^verbatim>\<open>pattern_pi_beg\<close> is \<^verbatim>\<open><\?\s*\<close>, the target, \<^verbatim>\<open>\s\<close>; \<^verbatim>\<open>pattern_pi_tag\<close> continues with
  \<^verbatim>\<open>(.+?)\?>\<close>. The target is taken literally, which is what the pattern means for a
  target made of letters, digits and underscores. The matchers below follow the
  backtracking search of \<^verbatim>\<open>re\<close>: \<^verbatim>\<open>\s*\<close> tries the longest run of whitespace first, \<^verbatim>\<open>.+?\<close>
  the shortest body first, and \<^verbatim>\<open>.\<close> is any character but the line break.
\<close>

fun first_some :: "('a \<Rightarrow> 'b option) \<Rightarrow> 'a list \<Rightarrow> 'b option" where
  "first_some f [] = None"
| "first_some f (k # ks) = (case f k of Some y \<Rightarrow> Some y | None \<Rightarrow> first_some f ks)"

text \<open>
  \<^verbatim>\<open>(.+?)\?>\<close> at the start of a string: the group and the text after the match.
\<close>

fun lazy_body :: "string \<Rightarrow> (string \<times> string) option" where
  "lazy_body [] = None"
| "lazy_body (c # s) =
     (if c = newline then None
      else if prefix ''?>'' s then Some ([c], drop 2 s)
      else map_option (\<lambda>(b, r). (c # b, r)) (lazy_body s))"

text \<open>
  The target and \<^verbatim>\<open>\s\<close> after \<open>k\<close> characters of \<open>r\<close>: the text after the whitespace
  character.
\<close>

definition target_at :: "string \<Rightarrow> string \<Rightarrow> nat \<Rightarrow> string option" where
  "target_at tgt r k =
     (if prefix tgt (drop k r) then
        (case drop (k + length tgt) r of
           [] \<Rightarrow> None
         | w # r' \<Rightarrow> if is_space w then Some r' else None)
      else None)"

text \<open>
  \<^verbatim>\<open>pattern_pi_beg\<close> at the start of \<open>s\<close>: the end of the match, \<^verbatim>\<open>m.end(0)\<close>.
\<close>

definition match_pi_beg :: "string \<Rightarrow> string \<Rightarrow> nat option" where
  "match_pi_beg tgt s =
     (if prefix ''<?'' s then
        (let r = drop 2 s in
         first_some
           (\<lambda>k. map_option (\<lambda>_. 2 + k + length tgt + 1) (target_at tgt r k))
           (rev [0 ..< Suc (length (takeWhile is_space r))]))
      else None)"

text \<open>
  \<^verbatim>\<open>pattern_pi_tag\<close> at the start of \<open>s\<close>: the group \<^verbatim>\<open>m[1]\<close> and the text after the match.
\<close>

definition match_pi_tag :: "string \<Rightarrow> string \<Rightarrow> (string \<times> string) option" where
  "match_pi_tag tgt s =
     (if prefix ''<?'' s then
        (let r = drop 2 s in
         first_some
           (\<lambda>k. case target_at tgt r k of None \<Rightarrow> None | Some r' \<Rightarrow> lazy_body r')
           (rev [0 ..< Suc (length (takeWhile is_space r))]))
      else None)"

text \<open>
  \<^verbatim>\<open>pattern_pi_beg.search(line)\<close>: the leftmost match, as \<^verbatim>\<open>(m.start(), m.end(0))\<close>.
\<close>

fun search_pi_beg :: "string \<Rightarrow> string \<Rightarrow> (nat \<times> nat) option" where
  "search_pi_beg tgt [] = None"
| "search_pi_beg tgt (c # s) =
     (case match_pi_beg tgt (c # s) of
        Some e \<Rightarrow> Some (0, e)
      | None \<Rightarrow> map_option (\<lambda>(a, e). (Suc a, Suc e)) (search_pi_beg tgt s))"

subsection \<open>Running one tag\<close>

text \<open>
  \<^verbatim>\<open>exec_and_dump(src, to_stream)\<close>, the closure of \<^verbatim>\<open>input\<close>; \<open>beg_ln\<close> is the
  \<^verbatim>\<open>this_pi_tag_beg_ln\<close> it reads. It returns the captured text when \<open>to_stream\<close> is
  \<open>None\<close>, and writes it to the stream otherwise.
\<close>

definition exec_and_dump ::
  "('a, 'c, 'ns) python \<Rightarrow> int \<Rightarrow> 'ns processor \<Rightarrow> string \<Rightarrow> stream option
     \<Rightarrow> (error + string option) \<times> 'ns processor"
where
  "exec_and_dump py beg_ln st src to_stream =
     (case exec_py py (st\<lparr>print_buffer := []\<rparr>) src beg_ln of
        (Some e, st') \<Rightarrow> (Inl e, st')
      | (None, st') \<Rightarrow>
          (let res = print_buffer st' in
           case to_stream of
             None \<Rightarrow> (Inr (Some res), st')
           | Some f \<Rightarrow> (Inr None, stream_write f res st')))"

text \<open>
  \<^verbatim>\<open>pattern_pi_tag.sub(lambda m: exec_and_dump(m[1], None), line)\<close>: the matches are found
  from left to right in the line, without overlap; each is run as it is found and
  replaced by what it printed. The first exception ends the substitution.
\<close>

function sub_tags ::
  "('a, 'c, 'ns) python \<Rightarrow> string \<Rightarrow> int \<Rightarrow> 'ns processor \<Rightarrow> string
     \<Rightarrow> (error + string) \<times> 'ns processor"
where
  "sub_tags py tgt beg_ln st [] = (Inr [], st)"
| "sub_tags py tgt beg_ln st (c # s) =
     (case match_pi_tag tgt (c # s) of
        Some (body, rest) \<Rightarrow>
          (case exec_and_dump py beg_ln st body None of
             (Inl e, st') \<Rightarrow> (Inl e, st')
           | (Inr res, st') \<Rightarrow>
               (case sub_tags py tgt beg_ln st' rest of
                  (Inl e, st'') \<Rightarrow> (Inl e, st'')
                | (Inr out, st'') \<Rightarrow> (Inr ((case res of None \<Rightarrow> [] | Some t \<Rightarrow> t) @ out), st'')))
      | None \<Rightarrow>
          (case sub_tags py tgt beg_ln st s of
             (Inl e, st') \<Rightarrow> (Inl e, st')
           | (Inr out, st') \<Rightarrow> (Inr (c # out), st')))"
  by pat_completeness auto
termination
proof -
  have body: "length r < length s" if "lazy_body s = Some (b, r)" for s b r
    using that by (induction s arbitrary: b r) (auto split: if_splits)
  have some: "\<exists>k \<in> set ks. f k = Some y" if "first_some f ks = Some y"
    for f :: "nat \<Rightarrow> (string \<times> string) option" and ks y
    using that by (induction ks) (auto split: option.splits)
  have target: "length r' < length r" if "target_at tgt r k = Some r'" for tgt r k r'
    using that
    by (auto simp: target_at_def split: if_splits list.splits
        dest!: arg_cong [where f = length])
  have tag: "length r < length s" if m: "match_pi_tag tgt s = Some (b, r)" for tgt s b r
  proof -
    from m obtain k r' where
      "target_at tgt (drop 2 s) k = Some r'" "lazy_body r' = Some (b, r)"
      by (auto simp: match_pi_tag_def Let_def split: if_splits option.splits dest!: some)
    then have "length r < length r'" "length r' < length (drop 2 s)"
      by (auto dest: body target)
    then show ?thesis by simp
  qed
  show ?thesis
    by (relation "measure (\<lambda>(py, tgt, beg_ln, st, s). length s)") (auto dest: tag)
qed

subsection \<open>Reading a document\<close>

text \<open>The local variables of \<^verbatim>\<open>input\<close> that live across lines.\<close>

record scan =
  line_num :: int
  in_pi_tag :: bool
  this_pi_tag_beg_ln :: int

text \<open>
  The second half of the loop body, from \<^verbatim>\<open>if line.find('<?') != -1\<close> to the write of
  the line: on \<open>line\<close>, the whole line or what follows the end of a multi-line tag.
\<close>

definition scan_rest ::
  "('a, 'c, 'ns) python \<Rightarrow> string \<Rightarrow> 'ns processor \<Rightarrow> scan \<Rightarrow> string
     \<Rightarrow> error option \<times> 'ns processor \<times> scan"
where
  "scan_rest py tgt st sc line =
     (if str_find line ''<?'' \<noteq> None then
        (let sc1 = sc\<lparr>this_pi_tag_beg_ln := line_num sc\<rparr> in
         case sub_tags py tgt (this_pi_tag_beg_ln sc1) st line of
           (Inl e, st1) \<Rightarrow> (Some e, st1, sc1)
         | (Inr line1, st1) \<Rightarrow>
             (case search_pi_beg tgt line1 of
                Some (m_start, m_end) \<Rightarrow>
                  (let beg_pos = m_end - 1 in
                   case drop beg_pos line1 of
                     [] \<Rightarrow> (Some (Propagated (Exc ''IndexError'')), st1, sc1)
                   | w # _ \<Rightarrow>
                       (if \<not> is_space w then (Some (Propagated AssertionError), st1, sc1)
                        else
                          (None,
                           stream_write (out_stream st1) (take m_start line1)
                             (st1\<lparr>code_buffer := drop beg_pos line1\<rparr>),
                           sc1\<lparr>in_pi_tag := True, this_pi_tag_beg_ln := line_num sc1\<rparr>)))
              | None \<Rightarrow> (None, stream_write (out_stream st1) line1 st1, sc1)))
      else (None, stream_write (out_stream st) line st, sc))"

text \<open>One turn of \<^verbatim>\<open>for line in in_stream\<close>.\<close>

definition input_line ::
  "('a, 'c, 'ns) python \<Rightarrow> string \<Rightarrow> 'ns processor \<Rightarrow> scan \<Rightarrow> string
     \<Rightarrow> error option \<times> 'ns processor \<times> scan"
where
  "input_line py tgt st sc line =
     (let sc1 = sc\<lparr>line_num := line_num sc + 1\<rparr> in
      if in_pi_tag sc1 then
        (case str_find line ''?>'' of
           None \<Rightarrow> (None, st\<lparr>code_buffer := code_buffer st @ line\<rparr>, sc1)
         | Some end_pos \<Rightarrow>
             (let st1 = st\<lparr>code_buffer := code_buffer st @ take end_pos line\<rparr> in
              case exec_and_dump py (this_pi_tag_beg_ln sc1) st1 (code_buffer st1)
                     (Some (out_stream st1)) of
                (Inl e, st2) \<Rightarrow> (Some e, st2, sc1)
              | (Inr _, st2) \<Rightarrow>
                  scan_rest py tgt st2 (sc1\<lparr>in_pi_tag := False, this_pi_tag_beg_ln := 0\<rparr>)
                    (drop (end_pos + 2) line)))
      else scan_rest py tgt st sc1 line)"

fun input_lines ::
  "('a, 'c, 'ns) python \<Rightarrow> string \<Rightarrow> 'ns processor \<Rightarrow> scan \<Rightarrow> string list
     \<Rightarrow> error option \<times> 'ns processor \<times> scan"
where
  "input_lines py tgt st sc [] = (None, st, sc)"
| "input_lines py tgt st sc (line # ls) =
     (case input_line py tgt st sc line of
        (Some e, st', sc') \<Rightarrow> (Some e, st', sc')
      | (None, st', sc') \<Rightarrow> input_lines py tgt st' sc' ls)"

definition never_closed :: "int \<Rightarrow> string" where
  "never_closed n =
     ''processing instruction starting from line '' @ str_int n @ '' was never closed''"

text \<open>
  \<^verbatim>\<open>Processor.input(file)\<close> on a stream that yields the text \<open>doc\<close>: \<^verbatim>\<open>sys.stdout\<close> is the
  \<^verbatim>\<open>print_buffer\<close> while the lines are read, and is put back on every way out. The
  processor is open (its \<^verbatim>\<open>out_stream\<close> is not \<^verbatim>\<open>None\<close>); opening and closing the input
  file are not modelled.
\<close>

definition input ::
  "('a, 'c, 'ns) python \<Rightarrow> string \<Rightarrow> 'ns processor \<Rightarrow> string \<Rightarrow> error option \<times> 'ns processor"
where
  "input py tgt st doc =
     (let orig_stdout = sys_stdout st in
      case input_lines py tgt (st\<lparr>sys_stdout := PrintBuffer\<rparr>)
             \<lparr>line_num = 0, in_pi_tag = False, this_pi_tag_beg_ln = 0\<rparr> (readlines doc) of
        (Some e, st', sc) \<Rightarrow> (Some e, st'\<lparr>sys_stdout := orig_stdout\<rparr>)
      | (None, st', sc) \<Rightarrow>
          (if in_pi_tag sc then
             (Some (XmlError (never_closed (this_pi_tag_beg_ln sc))),
              st'\<lparr>sys_stdout := orig_stdout\<rparr>)
           else (None, st'\<lparr>sys_stdout := orig_stdout\<rparr>)))"

subsection \<open>The driver\<close>

text \<open>
  The body of \<^verbatim>\<open>main\<close> once the arguments are parsed: the \<^verbatim>\<open>-c\<close> commands go to
  \<^verbatim>\<open>exec_py\<close> one by one, then each input document is processed, the standard input
  when no document is named. The first exception ends the run; how \<^verbatim>\<open>main\<close> prints a
  \<^verbatim>\<open>PythonError\<close> or an \<^verbatim>\<open>XmlError\<close> it catches is not modelled.
\<close>

fun exec_cmds ::
  "('a, 'c, 'ns) python \<Rightarrow> 'ns processor \<Rightarrow> string list \<Rightarrow> error option \<times> 'ns processor"
where
  "exec_cmds py st [] = (None, st)"
| "exec_cmds py st (c # cs) =
     (case exec_py py st c 1 of
        (Some e, st') \<Rightarrow> (Some e, st')
      | (None, st') \<Rightarrow> exec_cmds py st' cs)"

fun input_all ::
  "('a, 'c, 'ns) python \<Rightarrow> string \<Rightarrow> 'ns processor \<Rightarrow> string list
     \<Rightarrow> error option \<times> 'ns processor"
where
  "input_all py tgt st [] = (None, st)"
| "input_all py tgt st (doc # docs) =
     (case input py tgt st doc of
        (Some e, st') \<Rightarrow> (Some e, st')
      | (None, st') \<Rightarrow> input_all py tgt st' docs)"

definition main_run ::
  "('a, 'c, 'ns) python \<Rightarrow> string \<Rightarrow> 'ns processor \<Rightarrow> string list \<Rightarrow> string list \<Rightarrow> string
     \<Rightarrow> error option \<times> 'ns processor"
where
  "main_run py tgt st cmds inputs stdin =
     (case exec_cmds py st cmds of
        (Some e, st') \<Rightarrow> (Some e, st')
      | (None, st') \<Rightarrow>
          (if inputs \<noteq> [] then input_all py tgt st' inputs else input py tgt st' stdin))"

subsection \<open>Two interpreters to run the model on\<close>

text \<open>
  An interpreter that accepts every source, prints nothing and keeps, as its
  namespace, the list of the sources it has run: it shows which text the processor
  hands to \<^verbatim>\<open>exec_py\<close>, and in which order.
\<close>

definition log_python :: "(string, string, string list) python" where
  "log_python =
     \<lparr>ast_parse = (\<lambda>src. Inr (Node src Missing Missing [])),
      py_compile = (\<lambda>t. case t of Node src _ _ _ \<Rightarrow> Inr src),
      py_exec = (\<lambda>src ns. (None, ns @ [src], []))\<rparr>"

text \<open>
  What CPython 3.11 does on the snippets of the scenarios: \<^verbatim>\<open>print('x')\<close> writes the
  text and a line break, \<^verbatim>\<open>print(1/0)\<close> raises \<^verbatim>\<open>ZeroDivisionError\<close>, \<^verbatim>\<open>print(\<close> is a
  syntax error on the line of the bracket. \<^verbatim>\<open>x = 1\<close> and \<^verbatim>\<open>y = 2\<close> bind a name, and
  \<^verbatim>\<open>print(x)\<close> writes \<^verbatim>\<open>1\<close> and a line break where \<^verbatim>\<open>x = 1\<close> has been run and raises
  \<^verbatim>\<open>NameError\<close> elsewhere; \<^verbatim>\<open>print(y)\<close> alike, also when it stands on the second line
  of its source, after an empty one. \<^verbatim>\<open>return\<close> is parsed, and refused by
  \<^verbatim>\<open>compile\<close> with a syntax error on the line its node has. The namespace is the list of
  the sources run. Any other source is refused with an exception of this stand-in's
  own.
\<close>

definition demo_parse :: "string \<Rightarrow> py_exc + string ast" where
  "demo_parse src =
     (if src = ''print('' then Inl (SyntaxError (Some 1) (Some 1))
      else if src = [newline] @ ''print('' @ [newline] then Inl (SyntaxError (Some 2) (Some 2))
      else if src = [newline] @ ''print(y)'' @ [newline]
      then Inr (Node ''Module'' Missing Missing [Node ''print(y)'' (IntVal 2) (IntVal 2) []])
      else if src \<in> {''print('x')'', ''print('y')'', ''print(1/0)'',
                      ''x = 1'', ''y = 2'', ''print(x)'', ''print(y)'', ''return''}
      then Inr (Node ''Module'' Missing Missing [Node src (IntVal 1) (IntVal 1) []])
      else Inl (Exc ''Unsupported''))"

fun attr_int :: "attr \<Rightarrow> int option" where
  "attr_int (IntVal n) = Some n"
| "attr_int _ = None"

definition demo_exec :: "string \<Rightarrow> string list \<Rightarrow> py_exc option \<times> string list \<times> string" where
  "demo_exec src ns =
     (if src = ''print('x')'' then (None, ns @ [src], ''x'' @ [newline])
      else if src = ''print('y')'' then (None, ns @ [src], ''y'' @ [newline])
      else if src = ''print(1/0)'' then (Some (Exc ''ZeroDivisionError''), ns @ [src], [])
      else if src = ''x = 1'' \<or> src = ''y = 2'' then (None, ns @ [src], [])
      else if src = ''print(x)'' then
        (if ''x = 1'' \<in> set ns then (None, ns @ [src], ''1'' @ [newline])
         else (Some (Exc ''NameError''), ns @ [src], []))
      else if src = ''print(y)'' then
        (if ''y = 2'' \<in> set ns then (None, ns @ [src], ''2'' @ [newline])
         else (Some (Exc ''NameError''), ns @ [src], []))
      else (Some (Exc ''Unsupported''), ns, []))"

definition demo_python :: "(string, string, string list) python" where
  "demo_python =
     \<lparr>ast_parse = demo_parse,
      py_compile = (\<lambda>t. case t of
                          Node _ _ _ [Node src ln eln _] \<Rightarrow>
                            (if src = ''return''
                             then Inl (SyntaxError (attr_int ln) (attr_int eln))
                             else Inr src)
                        | _ \<Rightarrow> Inl (Exc ''Unsupported'')),
      py_exec = demo_exec\<rparr>"

section \<open>Properties\<close>

subsection \<open>Strings\<close>

lemma str_find_None_iff:
  "str_find s sub = None \<longleftrightarrow> (\<forall>j \<le> length s. \<not> prefix sub (drop j s))"
proof (induction s)
  case Nil
  then show ?case by auto
next
  case (Cons c s)
  show ?case
  proof (cases "prefix sub (c # s)")
    case True
    then show ?thesis by (auto intro: exI [where x = 0])
  next
    case False
    have "(\<forall>j \<le> length (c # s). \<not> prefix sub (drop j (c # s)))
        \<longleftrightarrow> (\<forall>j \<le> length s. \<not> prefix sub (drop j s))"
    proof
      assume h: "\<forall>j \<le> length (c # s). \<not> prefix sub (drop j (c # s))"
      show "\<forall>j \<le> length s. \<not> prefix sub (drop j s)"
      proof (intro allI impI)
        fix j assume "j \<le> length s"
        with h [rule_format, of "Suc j"] show "\<not> prefix sub (drop j s)" by simp
      qed
    next
      assume h: "\<forall>j \<le> length s. \<not> prefix sub (drop j s)"
      show "\<forall>j \<le> length (c # s). \<not> prefix sub (drop j (c # s))"
      proof (intro allI impI)
        fix j assume j: "j \<le> length (c # s)"
        show "\<not> prefix sub (drop j (c # s))"
        proof (cases j)
          case 0
          with False show ?thesis by simp
        next
          case (Suc k)
          with j h [rule_format, of k] show ?thesis by simp
        qed
      qed
    qed
    with False Cons show ?thesis by simp
  qed
qed

lemma str_find_Some_D:
  "str_find s sub = Some i \<Longrightarrow>
     i \<le> length s \<and> prefix sub (drop i s) \<and> (\<forall>j < i. \<not> prefix sub (drop j s))"
proof (induction s arbitrary: i)
  case Nil
  then show ?case by (auto split: if_splits)
next
  case (Cons c s)
  show ?case
  proof (cases "prefix sub (c # s)")
    case True
    with Cons.prems show ?thesis by simp
  next
    case False
    with Cons.prems obtain i' where i': "str_find s sub = Some i'" "i = Suc i'"
      by auto
    from Cons.IH [OF i'(1)] False i'(2) show ?thesis
      by (auto simp: less_Suc_eq_0_disj)
  qed
qed

lemma str_find_first:
  assumes "prefix sub (drop i s)" "i \<le> length s" "\<forall>j < i. \<not> prefix sub (drop j s)"
  shows "str_find s sub = Some i"
proof (cases "str_find s sub")
  case None
  with assms show ?thesis by (auto simp: str_find_None_iff)
next
  case (Some k)
  from str_find_Some_D [OF Some] assms have "\<not> k < i" "\<not> i < k" by auto
  with Some show ?thesis by simp
qed

lemma readlines_concat: "concat (readlines s) = s"
  by (induction s) (auto split: list.splits)

lemma readlines_Nil_iff: "readlines s = [] \<longleftrightarrow> s = []"
  by (cases s) (auto split: list.splits)

lemma readlines_no_break:
  "newline \<notin> set p \<Longrightarrow>
     readlines (p @ s) =
       (case readlines s of [] \<Rightarrow> (if p = [] then [] else [p]) | l # ls \<Rightarrow> (p @ l) # ls)"
  by (induction p) (auto split: list.splits)

lemma readlines_break:
  "newline \<notin> set p \<Longrightarrow> readlines (p @ newline # s) = (p @ [newline]) # readlines s"
  by (induction p) (auto split: list.splits)

lemma readlines_append:
  "pre = [] \<or> last pre = newline \<Longrightarrow> readlines (pre @ s) = readlines pre @ readlines s"
proof (induction pre rule: readlines.induct)
  case 1
  then show ?case by simp
next
  case (2 c s')
  then show ?case
    by (cases s') (auto split: list.splits if_splits simp: readlines_Nil_iff)
qed

subsection \<open>The patterns\<close>

lemma first_some_None: "(\<forall>k \<in> set ks. f k = None) \<Longrightarrow> first_some f ks = None"
  by (induction ks) auto

lemma first_some_SomeD: "first_some f ks = Some y \<Longrightarrow> \<exists>k \<in> set ks. f k = Some y"
  by (induction ks) (auto split: option.splits)

lemma first_some_not_None: "k \<in> set ks \<Longrightarrow> f k = Some y \<Longrightarrow> first_some f ks \<noteq> None"
  by (induction ks) (auto split: option.splits)

lemma first_some_longest:
  assumes "\<forall>k < n. f k = None"
  shows "first_some f (rev [0 ..< Suc n]) = f n"
proof -
  have "first_some f (rev [0 ..< n]) = None"
    using assms by (intro first_some_None) auto
  then show ?thesis by (simp split: option.splits)
qed

lemma open_not_space: "\<not> is_space (CHR ''<'')" "\<not> is_space (CHR ''?'')"
  by (simp_all add: is_space_def)

lemma takeWhile_space_run:
  assumes "\<forall>c \<in> set ws. is_space c" "tgt \<noteq> []" "\<not> is_space (hd tgt)"
  shows "takeWhile is_space (ws @ tgt @ r) = ws"
proof -
  from assms(2,3) have "takeWhile is_space (tgt @ r) = []"
    by (cases tgt) auto
  with assms(1) show ?thesis by (simp add: takeWhile_append2)
qed

lemma target_at_here:
  "is_space w \<Longrightarrow> target_at tgt (ws @ tgt @ w # r) (length ws) = Some r"
  by (simp add: target_at_def)

lemma target_at_before:
  assumes "k < length ws" "\<forall>c \<in> set ws. is_space c" "tgt \<noteq> []" "\<not> is_space (hd tgt)"
  shows "target_at tgt (ws @ tgt @ r) k = None"
proof -
  from assms(1) obtain x xs where d: "drop k ws = x # xs"
    by (cases "drop k ws") auto
  then have "x \<in> set ws" by (metis in_set_dropD list.set_intros(1))
  with assms(2) have "is_space x" by blast
  with assms(3,4) have "\<not> prefix tgt (x # xs @ tgt @ r)"
    by (cases tgt) auto
  with assms(1) d show ?thesis by (simp add: target_at_def)
qed

lemma match_pi_tag_shape:
  assumes "\<forall>c \<in> set ws. is_space c" "tgt \<noteq> []" "\<not> is_space (hd tgt)" "is_space w"
  shows "match_pi_tag tgt (''<?'' @ ws @ tgt @ w # r) = lazy_body r"
proof -
  let ?f = "\<lambda>k. case target_at tgt (ws @ tgt @ w # r) k of
                   None \<Rightarrow> None | Some r' \<Rightarrow> lazy_body r'"
  have "\<forall>k < length ws. ?f k = None"
    using assms(1-3) by (simp add: target_at_before)
  then have "first_some ?f (rev [0 ..< Suc (length ws)]) = ?f (length ws)"
    by (rule first_some_longest)
  moreover have "?f (length ws) = lazy_body r"
    using assms(4) by (simp add: target_at_here)
  moreover have tw: "takeWhile is_space (ws @ tgt @ w # r) = ws"
    using assms(1-3) by (rule takeWhile_space_run)
  moreover have "prefix ''<?'' (''<?'' @ ws @ tgt @ w # r)"
    and "drop 2 (''<?'' @ ws @ tgt @ w # r) = ws @ tgt @ w # r"
    by simp_all
  ultimately show ?thesis by (simp only: match_pi_tag_def Let_def if_True)
qed

lemma match_pi_beg_shape:
  assumes "\<forall>c \<in> set ws. is_space c" "tgt \<noteq> []" "\<not> is_space (hd tgt)" "is_space w"
  shows "match_pi_beg tgt (''<?'' @ ws @ tgt @ w # r) = Some (length ws + length tgt + 3)"
proof -
  let ?f = "\<lambda>k. map_option (\<lambda>_. 2 + k + length tgt + 1) (target_at tgt (ws @ tgt @ w # r) k)"
  have "\<forall>k < length ws. ?f k = None"
    using assms(1-3) by (simp add: target_at_before)
  then have "first_some ?f (rev [0 ..< Suc (length ws)]) = ?f (length ws)"
    by (rule first_some_longest)
  moreover have "?f (length ws) = Some (length ws + length tgt + 3)"
    using assms(4) by (simp add: target_at_here)
  moreover have tw: "takeWhile is_space (ws @ tgt @ w # r) = ws"
    using assms(1-3) by (rule takeWhile_space_run)
  moreover have "prefix ''<?'' (''<?'' @ ws @ tgt @ w # r)"
    and "drop 2 (''<?'' @ ws @ tgt @ w # r) = ws @ tgt @ w # r"
    by simp_all
  ultimately show ?thesis by (simp only: match_pi_beg_def Let_def if_True)
qed

lemma match_pi_tag_open: "match_pi_tag tgt s = Some x \<Longrightarrow> prefix ''<?'' s"
  by (simp add: match_pi_tag_def split: if_splits)

lemma match_pi_beg_open: "match_pi_beg tgt s = Some e \<Longrightarrow> prefix ''<?'' s"
  by (simp add: match_pi_beg_def split: if_splits)

lemma match_tag_imp_beg:
  assumes "match_pi_tag tgt s = Some x"
  shows "match_pi_beg tgt s \<noteq> None"
proof -
  from assms have p: "prefix ''<?'' s" by (rule match_pi_tag_open)
  let ?ks = "rev [0 ..< Suc (length (takeWhile is_space (drop 2 s)))]"
  let ?f = "\<lambda>k. case target_at tgt (drop 2 s) k of None \<Rightarrow> None | Some r' \<Rightarrow> lazy_body r'"
  let ?g = "\<lambda>k. map_option (\<lambda>_. 2 + k + length tgt + 1) (target_at tgt (drop 2 s) k)"
  from assms p have "first_some ?f ?ks = Some x"
    by (simp only: match_pi_tag_def Let_def if_True)
  then obtain k where k: "k \<in> set ?ks" "?f k = Some x"
    by (blast dest: first_some_SomeD)
  then obtain r' where "target_at tgt (drop 2 s) k = Some r'"
    by (cases "target_at tgt (drop 2 s) k") auto
  then have "?g k = Some (2 + k + length tgt + 1)" by simp
  with k(1) have "first_some ?g ?ks \<noteq> None" by (rule first_some_not_None)
  with p show ?thesis by (simp only: match_pi_beg_def Let_def if_True not_False_eq_True)
qed

lemma search_pi_beg_None:
  "search_pi_beg tgt s = None \<Longrightarrow> match_pi_beg tgt (drop j s) = None"
proof (induction s arbitrary: j)
  case Nil
  then show ?case by (simp add: match_pi_beg_def)
next
  case (Cons c s)
  then show ?case by (cases j) (auto split: option.splits)
qed

lemma no_tag_at:
  "search_pi_beg tgt s = None \<Longrightarrow> match_pi_tag tgt (drop j s) = None"
  using match_tag_imp_beg [of tgt "drop j s"] search_pi_beg_None [of tgt s j]
  by (cases "match_pi_tag tgt (drop j s)") auto

lemma sub_tags_skip:
  assumes "\<forall>j < length p. match_pi_tag tgt (drop j (p @ s)) = None"
  shows "sub_tags py tgt n st (p @ s) =
           (case sub_tags py tgt n st s of
              (Inl e, st') \<Rightarrow> (Inl e, st')
            | (Inr out, st') \<Rightarrow> (Inr (p @ out), st'))"
  using assms
proof (induction p)
  case Nil
  then show ?case by (simp split: prod.splits sum.splits)
next
  case (Cons c p)
  from Cons.prems have here: "match_pi_tag tgt (c # p @ s) = None"
    by (auto dest: spec [where x = 0])
  from Cons.prems have "\<forall>j < length p. match_pi_tag tgt (drop j (p @ s)) = None"
    by (auto dest: spec [where x = "Suc j" for j])
  from Cons.IH [OF this] here show ?case
    by (simp split: prod.splits sum.splits)
qed

lemma sub_tags_plain:
  assumes "search_pi_beg tgt s = None"
  shows "sub_tags py tgt n st s = (Inr s, st)"
  using sub_tags_skip [of s tgt "[]" py n st] assms by (simp add: no_tag_at)

lemma search_pi_beg_skip:
  assumes "\<forall>j < length p. match_pi_beg tgt (drop j (p @ s)) = None"
  shows "search_pi_beg tgt (p @ s) =
           map_option (\<lambda>(a, e). (length p + a, length p + e)) (search_pi_beg tgt s)"
  using assms
proof (induction p)
  case Nil
  then show ?case by (simp add: option.map_ident split_def)
next
  case (Cons c p)
  from Cons.prems have here: "match_pi_beg tgt (c # p @ s) = None"
    by (auto dest: spec [where x = 0])
  from Cons.prems have "\<forall>j < length p. match_pi_beg tgt (drop j (p @ s)) = None"
    by (auto dest: spec [where x = "Suc j" for j])
  from Cons.IH [OF this] here show ?case
    by (simp add: option.map_comp comp_def split_def)
qed

lemma no_open_before:
  assumes "str_find a ''<?'' = None" "j < length a"
  shows "\<not> prefix ''<?'' (drop j (a @ CHR ''<'' # r))"
proof
  assume p: "prefix ''<?'' (drop j (a @ CHR ''<'' # r))"
  from assms(1) assms(2) have n: "\<not> prefix ''<?'' (drop j a)"
    by (simp add: str_find_None_iff)
  from assms(2) obtain x xs where d: "drop j a = x # xs"
    by (cases "drop j a") auto
  with p n assms(2) show False
    by (cases xs) (auto simp: prefix_Cons)
qed

subsection \<open>Lines without a tag\<close>

lemma stream_write_Nil [simp]: "stream_write f [] st = st"
  by (cases f) (simp_all add: stream_write_def)

lemma stream_write_append:
  "stream_write f (a @ b) st = stream_write f b (stream_write f a st)"
  by (cases f) (simp_all add: stream_write_def)

lemma stream_write_fields [simp]:
  "out_stream (stream_write f s st) = out_stream st"
  "sys_stdout (stream_write f s st) = sys_stdout st"
  "exec_globals (stream_write f s st) = exec_globals st"
  "code_buffer (stream_write f s st) = code_buffer st"
  "print_buffer (stream_write f s st) = print_buffer st"
  by (cases f; simp add: stream_write_def)+

lemma scan_rest_plain:
  assumes "search_pi_beg tgt l = None"
  shows "\<exists>sc'. scan_rest py tgt st sc l = (None, stream_write (out_stream st) l st, sc')
           \<and> in_pi_tag sc' = in_pi_tag sc \<and> line_num sc' = line_num sc"
  using assms by (simp add: scan_rest_def sub_tags_plain)

lemma input_lines_plain:
  assumes "\<forall>l \<in> set ls. search_pi_beg tgt l = None" "\<not> in_pi_tag sc"
  shows "\<exists>sc'. input_lines py tgt st sc ls
             = (None, stream_write (out_stream st) (concat ls) st, sc')
           \<and> \<not> in_pi_tag sc' \<and> line_num sc' = line_num sc + int (length ls)"
  using assms
proof (induction ls arbitrary: st sc)
  case Nil
  then show ?case by simp
next
  case (Cons l ls)
  let ?sc1 = "sc\<lparr>line_num := line_num sc + 1\<rparr>"
  from Cons.prems have l: "search_pi_beg tgt l = None" by simp
  from scan_rest_plain [OF l, of py st ?sc1] Cons.prems(2) obtain sc2 where
    sc2: "input_line py tgt st sc l = (None, stream_write (out_stream st) l st, sc2)"
      "\<not> in_pi_tag sc2" "line_num sc2 = line_num sc + 1"
    by (auto simp: input_line_def)
  from Cons.prems(1) have "\<forall>l \<in> set ls. search_pi_beg tgt l = None" by simp
  from Cons.IH [OF this sc2(2), of "stream_write (out_stream st) l st"] sc2
  show ?case by (auto simp: stream_write_append)
qed

lemma restore_stdout:
  "(stream_write f s (st\<lparr>sys_stdout := t\<rparr>))\<lparr>sys_stdout := sys_stdout st\<rparr> = stream_write f s st"
  by (cases f) (simp_all add: stream_write_def)

subsection \<open>The closing marker\<close>

lemma str_find_None_appendD:
  assumes "str_find (u @ v) sub = None"
  shows "str_find v sub = None" and "sub \<noteq> [] \<Longrightarrow> str_find u sub = None"
proof -
  have all: "\<forall>j \<le> length (u @ v). \<not> prefix sub (drop j (u @ v))"
    using assms by (simp add: str_find_None_iff)
  show "str_find v sub = None"
    unfolding str_find_None_iff
  proof (intro allI impI)
    fix j assume "j \<le> length v"
    with all [rule_format, of "length u + j"] show "\<not> prefix sub (drop j v)" by simp
  qed
  show "str_find u sub = None" if ne: "sub \<noteq> []"
    unfolding str_find_None_iff
  proof (intro allI impI)
    fix j assume j: "j \<le> length u"
    show "\<not> prefix sub (drop j u)"
    proof
      assume "prefix sub (drop j u)"
      then have "prefix sub (drop j u @ v)" by (rule prefix_prefix)
      with all [rule_format, of j] j show False by simp
    qed
  qed
qed

lemma lazy_body_decomp:
  "lazy_body s = Some (b, r) \<Longrightarrow> s = b @ ''?>'' @ r \<and> b \<noteq> [] \<and> newline \<notin> set b"
proof (induction s arbitrary: b r)
  case Nil
  then show ?case by simp
next
  case (Cons c s)
  show ?case
  proof (cases "prefix ''?>'' s")
    case True
    then obtain t where "s = ''?>'' @ t" by (auto simp: prefix_def)
    with Cons.prems True show ?thesis by (auto split: if_splits)
  next
    case False
    with Cons.prems obtain b' where "lazy_body s = Some (b', r)" "b = c # b'" "c \<noteq> newline"
      by (auto split: if_splits)
    with Cons.IH [of b' r] show ?thesis by auto
  qed
qed

lemma lazy_body_first:
  "lazy_body s = Some (b, r) \<Longrightarrow> str_find (tl b) ''?>'' = None"
proof (induction s arbitrary: b r)
  case Nil
  then show ?case by simp
next
  case (Cons c s)
  show ?case
  proof (cases "prefix ''?>'' s")
    case True
    with Cons.prems show ?thesis by (auto split: if_splits)
  next
    case False
    with Cons.prems obtain b' where b': "lazy_body s = Some (b', r)" "b = c # b'"
      by (auto split: if_splits)
    from lazy_body_decomp [OF b'(1)] have s: "s = b' @ ''?>'' @ r" "b' \<noteq> []" by auto
    from Cons.IH [OF b'(1)] have tl: "str_find (tl b') ''?>'' = None" .
    from s False have "\<not> prefix ''?>'' b'"
      by (metis prefix_prefix)
    with tl s(2) have "str_find b' ''?>'' = None"
      by (cases b') auto
    with b'(2) show ?thesis by simp
  qed
qed

lemma lazy_body_intro:
  assumes "c \<noteq> newline" "newline \<notin> set b" "str_find b ''?>'' = None"
  shows "lazy_body (c # b @ ''?>'' @ r) = Some (c # b, r)"
  using assms
proof (induction b arbitrary: c)
  case Nil
  then show ?case by simp
next
  case (Cons d b)
  from Cons.prems(3) have np: "\<not> prefix ''?>'' (d # b)" and tl: "str_find b ''?>'' = None"
    by (auto split: if_splits)
  have "\<not> prefix ''?>'' ((d # b) @ ''?>'' @ r)"
  proof
    assume p: "prefix ''?>'' ((d # b) @ ''?>'' @ r)"
    with np show False by (cases b) (auto simp: prefix_Cons)
  qed
  moreover from Cons.prems(2) have d: "d \<noteq> newline" "newline \<notin> set b" by auto
  then have "lazy_body (d # b @ ''?>'' @ r) = Some (d # b, r)"
    using tl by (rule Cons.IH)
  ultimately show ?case using Cons.prems(1) by simp
qed

lemma lazy_body_None:
  assumes "str_find s ''?>'' = None"
  shows "lazy_body s = None"
proof (cases "lazy_body s")
  case None
  then show ?thesis .
next
  case (Some x)
  then obtain b r where "lazy_body s = Some (b, r)" by (cases x) auto
  then have "s = b @ ''?>'' @ r" by (auto dest: lazy_body_decomp)
  then have "prefix ''?>'' (drop (length b) s)" by simp
  moreover have "length b \<le> length s" using \<open>s = b @ ''?>'' @ r\<close> by simp
  ultimately show ?thesis using assms by (auto simp: str_find_None_iff)
qed

subsection \<open>What a match looks like\<close>

lemma target_at_decomp:
  assumes "target_at tgt r k = Some r'"
  shows "\<exists>w. r = take k r @ tgt @ w # r' \<and> is_space w \<and> k \<le> length r"
proof -
  from assms have p: "prefix tgt (drop k r)" and
    d: "\<exists>w. drop (k + length tgt) r = w # r' \<and> is_space w"
    by (auto simp: target_at_def split: if_splits list.splits)
  from p obtain t where t: "drop k r = tgt @ t" by (auto simp: prefix_def)
  from d obtain w where w: "drop (k + length tgt) r = w # r'" "is_space w" by auto
  have "drop (k + length tgt) r = drop (length tgt) (drop k r)"
    by (simp add: add.commute)
  with t w have "t = w # r'" by simp
  with t have "r = take k r @ tgt @ w # r'"
    by (metis append_take_drop_id)
  moreover from t have "k \<le> length r"
    by (metis w(1) add_leD1 drop_all list.distinct(1) not_le_imp_less order_less_imp_le)
  ultimately show ?thesis using w(2) by blast
qed

lemma space_run:
  assumes "k \<le> length (takeWhile is_space r)"
  shows "\<forall>c \<in> set (take k r). is_space c"
proof -
  have "take k r = take k (takeWhile is_space r)"
    using assms by (metis append_eq_conv_conj takeWhile_dropWhile_id take_append
        diff_is_0_eq' take_0 append_Nil2)
  then show ?thesis
    by (metis in_set_takeD set_takeWhileD)
qed

lemma match_pi_beg_decomp:
  assumes "match_pi_beg tgt s = Some e"
  shows "\<exists>ws w r. s = ''<?'' @ ws @ tgt @ w # r \<and> (\<forall>c \<in> set ws. is_space c) \<and> is_space w
           \<and> e = length ws + length tgt + 3"
proof -
  from assms have p: "prefix ''<?'' s" by (rule match_pi_beg_open)
  then have s: "s = ''<?'' @ drop 2 s" by (auto simp: prefix_def)
  let ?r = "drop 2 s"
  let ?ks = "rev [0 ..< Suc (length (takeWhile is_space ?r))]"
  let ?g = "\<lambda>k. map_option (\<lambda>_. 2 + k + length tgt + 1) (target_at tgt ?r k)"
  from assms p have "first_some ?g ?ks = Some e"
    by (simp only: match_pi_beg_def Let_def if_True)
  then obtain k where k: "k \<in> set ?ks" "?g k = Some e"
    by (blast dest: first_some_SomeD)
  then obtain r' where r': "target_at tgt ?r k = Some r'" "e = k + length tgt + 3"
    by (cases "target_at tgt ?r k") auto
  from target_at_decomp [OF r'(1)] obtain w where
    w: "?r = take k ?r @ tgt @ w # r'" "is_space w" "k \<le> length ?r" by blast
  from k(1) have "k \<le> length (takeWhile is_space ?r)" by auto
  then have sp: "\<forall>c \<in> set (take k ?r). is_space c" by (rule space_run)
  have "length (take k ?r) = k" using w(3) by simp
  with s w sp r'(2) show ?thesis
    by (metis (no_types, lifting))
qed

lemma match_pi_tag_decomp:
  assumes "match_pi_tag tgt s = Some (b, r)"
  shows "\<exists>ws w. s = ''<?'' @ ws @ tgt @ w # b @ ''?>'' @ r \<and> (\<forall>c \<in> set ws. is_space c)
           \<and> is_space w \<and> b \<noteq> [] \<and> newline \<notin> set b \<and> str_find (tl b) ''?>'' = None"
proof -
  from assms have p: "prefix ''<?'' s" by (rule match_pi_tag_open)
  then have s: "s = ''<?'' @ drop 2 s" by (auto simp: prefix_def)
  let ?r = "drop 2 s"
  let ?ks = "rev [0 ..< Suc (length (takeWhile is_space ?r))]"
  let ?f = "\<lambda>k. case target_at tgt ?r k of None \<Rightarrow> None | Some r' \<Rightarrow> lazy_body r'"
  from assms p have "first_some ?f ?ks = Some (b, r)"
    by (simp only: match_pi_tag_def Let_def if_True)
  then obtain k where k: "k \<in> set ?ks" "?f k = Some (b, r)"
    by (blast dest: first_some_SomeD)
  then obtain r' where r': "target_at tgt ?r k = Some r'" "lazy_body r' = Some (b, r)"
    by (cases "target_at tgt ?r k") auto
  from target_at_decomp [OF r'(1)] obtain w where
    w: "?r = take k ?r @ tgt @ w # r'" "is_space w" "k \<le> length ?r" by blast
  from k(1) have "k \<le> length (takeWhile is_space ?r)" by auto
  then have sp: "\<forall>c \<in> set (take k ?r). is_space c" by (rule space_run)
  from lazy_body_decomp [OF r'(2)] lazy_body_first [OF r'(2)]
  have b: "r' = b @ ''?>'' @ r" "b \<noteq> []" "newline \<notin> set b" "str_find (tl b) ''?>'' = None"
    by auto
  from s w(1) b(1) have "s = ''<?'' @ take k ?r @ tgt @ w # b @ ''?>'' @ r"
    by metis
  with sp w(2) b show ?thesis by blast
qed

subsection \<open>Running the model on a given document\<close>

lemmas scan_defs = input_def input_line_def scan_rest_def exec_and_dump_def exec_py_def
  match_pi_tag_def match_pi_beg_def target_at_def is_space_def newline_def
  stream_write_def stdout_write_def sink_text_def

lemma demo_print_x:
  "ast_parse demo_python ''print('x')''
     = Inr (Node ''Module'' Missing Missing [Node ''print('x')'' (IntVal 1) (IntVal 1) []])"
  "py_compile demo_python
     (Node ''Module'' Missing Missing [Node ''print('x')'' (IntVal 1) (IntVal 1) []])
     = Inr ''print('x')''"
  "py_exec demo_python ''print('x')'' ns = (None, ns @ [''print('x')''], ''x\<newline>'')"
  by (simp_all add: demo_python_def demo_parse_def demo_exec_def newline_def)

lemma demo_print_y:
  "ast_parse demo_python ''print('y')''
     = Inr (Node ''Module'' Missing Missing [Node ''print('y')'' (IntVal 1) (IntVal 1) []])"
  "py_compile demo_python
     (Node ''Module'' Missing Missing [Node ''print('y')'' (IntVal 1) (IntVal 1) []])
     = Inr ''print('y')''"
  "py_exec demo_python ''print('y')'' ns = (None, ns @ [''print('y')''], ''y\<newline>'')"
  by (simp_all add: demo_python_def demo_parse_def demo_exec_def newline_def)

lemma demo_print_div:
  "ast_parse demo_python ''print(1/0)''
     = Inr (Node ''Module'' Missing Missing [Node ''print(1/0)'' (IntVal 1) (IntVal 1) []])"
  "py_compile demo_python
     (Node ''Module'' Missing Missing [Node ''print(1/0)'' (IntVal 1) (IntVal 1) []])
     = Inr ''print(1/0)''"
  "py_exec demo_python ''print(1/0)'' ns
     = (Some (Exc ''ZeroDivisionError''), ns @ [''print(1/0)''], [])"
  by (simp_all add: demo_python_def demo_parse_def demo_exec_def newline_def)

subsection \<open>Line numbers and the lines before a tag\<close>

lemma exec_py_syntax_error:
  assumes "ast_parse py src = Inl (SyntaxError (Some n) (Some m))" "1 \<le> ln"
  shows "exec_py py st src ln
           = (Some (PythonError (SyntaxError (Some (n + ln - 1)) (Some (m + ln - 1)))), st)"
  using assms by (simp add: exec_py_def Let_def)

lemma exec_and_dump_syntax_error:
  assumes "ast_parse py src = Inl (SyntaxError (Some n) (Some m))" "1 \<le> ln"
  shows "fst (exec_and_dump py ln st src f)
           = Inl (PythonError (SyntaxError (Some (n + ln - 1)) (Some (m + ln - 1))))"
  using exec_py_syntax_error [OF assms] by (simp add: exec_and_dump_def)

lemma scan_rest_line_num:
  "scan_rest py tgt st sc line = (r, st', sc') \<Longrightarrow> line_num sc' = line_num sc"
  by (auto simp: scan_rest_def Let_def split: if_splits prod.splits sum.splits option.splits
      list.splits)

lemma input_line_line_num:
  "input_line py tgt st sc line = (r, st', sc') \<Longrightarrow> line_num sc' = line_num sc + 1"
  by (auto simp: input_line_def Let_def split: if_splits prod.splits sum.splits option.splits
      dest!: scan_rest_line_num)

lemma input_lines_line_num:
  "input_lines py tgt st sc ls = (None, st', sc') \<Longrightarrow> line_num sc' = line_num sc + int (length ls)"
proof (induction ls arbitrary: st sc)
  case Nil
  then show ?case by simp
next
  case (Cons l ls)
  obtain r st1 sc1 where l: "input_line py tgt st sc l = (r, st1, sc1)"
    by (cases "input_line py tgt st sc l") auto
  with Cons.prems have r: "r = None" and rest: "input_lines py tgt st1 sc1 ls = (None, st', sc')"
    by (auto split: option.splits)
  from Cons.IH [OF rest] input_line_line_num [OF l] show ?case by simp
qed

lemma input_lines_append:
  "input_lines py tgt st sc (xs @ ys) =
     (case input_lines py tgt st sc xs of
        (Some e, st', sc') \<Rightarrow> (Some e, st', sc')
      | (None, st', sc') \<Rightarrow> input_lines py tgt st' sc' ys)"
  by (induction xs arbitrary: st sc) (auto split: prod.splits option.splits)

lemma input_NoneD:
  assumes "fst (input py tgt st doc) = None"
  shows "\<exists>st1 sc1. input_lines py tgt (st\<lparr>sys_stdout := PrintBuffer\<rparr>)
             \<lparr>line_num = 0, in_pi_tag = False, this_pi_tag_beg_ln = 0\<rparr> (readlines doc)
               = (None, st1, sc1)
           \<and> \<not> in_pi_tag sc1 \<and> line_num sc1 = int (length (readlines doc))"
proof -
  let ?sc0 = "\<lparr>line_num = 0, in_pi_tag = False, this_pi_tag_beg_ln = 0\<rparr>"
  obtain r st1 sc1 where
    l: "input_lines py tgt (st\<lparr>sys_stdout := PrintBuffer\<rparr>) ?sc0 (readlines doc) = (r, st1, sc1)"
    by (cases "input_lines py tgt (st\<lparr>sys_stdout := PrintBuffer\<rparr>) ?sc0 (readlines doc)") auto
  with assms have "r = None" "\<not> in_pi_tag sc1"
    by (auto simp: input_def Let_def split: option.splits if_splits)
  with l input_lines_line_num [of py tgt _ ?sc0 "readlines doc" st1 sc1] show ?thesis
    by auto
qed

text \<open>
  The error of a document is the error of its lines after a part that is read without
  error and ends outside a tag.
\<close>

lemma input_after:
  assumes "pre = [] \<or> last pre = newline" and "fst (input py tgt st pre) = None"
  shows "\<exists>st1 sc1. \<not> in_pi_tag sc1 \<and> line_num sc1 = int (length (readlines pre))
           \<and> fst (input py tgt st (pre @ s))
               = (case input_lines py tgt st1 sc1 (readlines s) of
                    (Some e, st2, sc2) \<Rightarrow> Some e
                  | (None, st2, sc2) \<Rightarrow>
                      if in_pi_tag sc2 then Some (XmlError (never_closed (this_pi_tag_beg_ln sc2)))
                      else None)"
proof -
  from input_NoneD [OF assms(2)] obtain st1 sc1 where
    1: "input_lines py tgt (st\<lparr>sys_stdout := PrintBuffer\<rparr>)
          \<lparr>line_num = 0, in_pi_tag = False, this_pi_tag_beg_ln = 0\<rparr> (readlines pre)
            = (None, st1, sc1)"
      "\<not> in_pi_tag sc1" "line_num sc1 = int (length (readlines pre))"
    by blast
  have "fst (input py tgt st (pre @ s))
               = (case input_lines py tgt st1 sc1 (readlines s) of
                    (Some e, st2, sc2) \<Rightarrow> Some e
                  | (None, st2, sc2) \<Rightarrow>
                      if in_pi_tag sc2 then Some (XmlError (never_closed (this_pi_tag_beg_ln sc2)))
                      else None)"
    using 1(1) by (simp add: input_def readlines_append [OF assms(1)] input_lines_append
        split: prod.splits option.splits)
  with 1(2,3) show ?thesis by blast
qed

subsection \<open>A line with a tag opening\<close>

lemma no_tag_without_open: "\<not> prefix ''<?'' s \<Longrightarrow> match_pi_tag tgt s = None"
  by (simp add: match_pi_tag_def)

lemma no_beg_without_open: "\<not> prefix ''<?'' s \<Longrightarrow> match_pi_beg tgt s = None"
  by (simp add: match_pi_beg_def)


lemma sub_tags_before_open:
  assumes "str_find a ''<?'' = None"
  shows "sub_tags py tgt n st (a @ CHR ''<'' # r) =
           (case sub_tags py tgt n st (CHR ''<'' # r) of
              (Inl e, st') \<Rightarrow> (Inl e, st')
            | (Inr out, st') \<Rightarrow> (Inr (a @ out), st'))"
proof (rule sub_tags_skip, intro allI impI)
  fix j assume "j < length a"
  with assms have "\<not> prefix ''<?'' (drop j (a @ CHR ''<'' # r))" by (rule no_open_before)
  then show "match_pi_tag tgt (drop j (a @ CHR ''<'' # r)) = None" by (rule no_tag_without_open)
qed

lemma search_before_open:
  assumes "str_find a ''<?'' = None"
  shows "search_pi_beg tgt (a @ CHR ''<'' # r) =
           map_option (\<lambda>(x, e). (length a + x, length a + e)) (search_pi_beg tgt (CHR ''<'' # r))"
proof (rule search_pi_beg_skip, intro allI impI)
  fix j assume "j < length a"
  with assms have "\<not> prefix ''<?'' (drop j (a @ CHR ''<'' # r))" by (rule no_open_before)
  then show "match_pi_beg tgt (drop j (a @ CHR ''<'' # r)) = None" by (rule no_beg_without_open)
qed

lemma sub_tags_no_open:
  assumes "\<forall>c \<in> set p. c \<noteq> CHR ''<''"
  shows "sub_tags py tgt n st (p @ s) =
           (case sub_tags py tgt n st s of
              (Inl e, st') \<Rightarrow> (Inl e, st')
            | (Inr out, st') \<Rightarrow> (Inr (p @ out), st'))"
proof (rule sub_tags_skip, intro allI impI)
  fix j assume j: "j < length p"
  then obtain c cs where d: "drop j p = c # cs" by (cases "drop j p") auto
  then have "c \<in> set p" by (metis in_set_dropD list.set_intros(1))
  with assms have "c \<noteq> CHR ''<''" by blast
  with d j have "\<not> prefix ''<?'' (drop j (p @ s))" by simp
  then show "match_pi_tag tgt (drop j (p @ s)) = None" by (rule no_tag_without_open)
qed

lemma str_find_occurs: "str_find (u @ sub @ v) sub \<noteq> None"
proof -
  have "prefix sub (drop (length u) (u @ sub @ v))" by simp
  moreover have "length u \<le> length (u @ sub @ v)" by simp
  ultimately show ?thesis unfolding str_find_None_iff by blast
qed

lemma sub_tags_no_close:
  assumes "str_find s ''?>'' = None"
  shows "sub_tags py tgt n st s = (Inr s, st)"
proof -
  have "match_pi_tag tgt (drop j s) = None" for j
  proof (cases "match_pi_tag tgt (drop j s)")
    case None
    then show ?thesis .
  next
    case (Some x)
    obtain b r where "x = (b, r)" by (cases x)
    with Some match_pi_tag_decomp [of tgt "drop j s" b r] obtain ws w where
      d: "drop j s = (''<?'' @ ws @ tgt @ w # b) @ ''?>'' @ r" by auto
    have "s = take j s @ drop j s" by simp
    with d have "s = (take j s @ ''<?'' @ ws @ tgt @ w # b) @ ''?>'' @ r"
      by (metis append_assoc)
    then have "str_find s ''?>'' \<noteq> None"
      using str_find_occurs [of "take j s @ ''<?'' @ ws @ tgt @ w # b" "''?>''" r] by simp
    with assms show ?thesis by simp
  qed
  with sub_tags_skip [of s tgt "[]" py n st] show ?thesis by simp
qed

text \<open>The opening of a tag that is not closed on its line.\<close>

lemma sub_tags_unmatched:
  assumes "match_pi_tag tgt (c # s) = None"
  shows "sub_tags py tgt n st (c # s) =
           (case sub_tags py tgt n st s of
              (Inl e, st') \<Rightarrow> (Inl e, st')
            | (Inr out, st') \<Rightarrow> (Inr (c # out), st'))"
  using assms by simp

lemma sub_tags_open_unmatched:
  assumes "tgt \<noteq> []" "\<forall>c \<in> set tgt. \<not> is_space c \<and> c \<noteq> CHR ''<''"
    and "\<forall>c \<in> set ws. is_space c" "is_space w" "lazy_body x = None"
  shows "sub_tags py tgt n st (''<?'' @ ws @ tgt @ w # x) =
           (case sub_tags py tgt n st x of
              (Inl e, st') \<Rightarrow> (Inl e, st')
            | (Inr out, st') \<Rightarrow> (Inr (''<?'' @ ws @ tgt @ w # out), st'))"
proof -
  from assms(1,2) have hd: "\<not> is_space (hd tgt)" by (cases tgt) auto
  let ?p = "CHR ''?'' # ws @ tgt @ [w]"
  have m: "match_pi_tag tgt (CHR ''<'' # ?p @ x) = None"
    using match_pi_tag_shape [OF assms(3) assms(1) hd assms(4), of x] assms(5) by simp
  have "\<forall>c \<in> set ?p. c \<noteq> CHR ''<''"
    using assms(2,3,4) open_not_space(1) by auto
  then have t: "sub_tags py tgt n st (?p @ x) =
           (case sub_tags py tgt n st x of
              (Inl e, st') \<Rightarrow> (Inl e, st')
            | (Inr out, st') \<Rightarrow> (Inr (?p @ out), st'))"
    by (rule sub_tags_no_open)
  have "sub_tags py tgt n st (CHR ''<'' # ?p @ x) =
           (case sub_tags py tgt n st x of
              (Inl e, st') \<Rightarrow> (Inl e, st')
            | (Inr out, st') \<Rightarrow> (Inr (CHR ''<'' # ?p @ out), st'))"
    unfolding sub_tags_unmatched [OF m] t by (simp split: prod.splits sum.splits)
  then show ?thesis by (simp del: sub_tags.simps split: prod.splits sum.splits)
qed

lemma sub_tags_open_matched:
  assumes "tgt \<noteq> []" "\<not> is_space (hd tgt)"
    and "\<forall>c \<in> set ws. is_space c" "is_space w" "lazy_body x = Some (b, r)"
  shows "sub_tags py tgt n st (''<?'' @ ws @ tgt @ w # x) =
           (case exec_and_dump py n st b None of
              (Inl e, st') \<Rightarrow> (Inl e, st')
            | (Inr res, st') \<Rightarrow>
                (case sub_tags py tgt n st' r of
                   (Inl e, st'') \<Rightarrow> (Inl e, st'')
                 | (Inr out, st'') \<Rightarrow>
                     (Inr ((case res of None \<Rightarrow> [] | Some t \<Rightarrow> t) @ out), st'')))"
proof -
  have m: "match_pi_tag tgt (CHR ''<'' # CHR ''?'' # ws @ tgt @ w # x) = Some (b, r)"
    using match_pi_tag_shape [OF assms(3) assms(1) assms(2) assms(4), of x] assms(5) by simp
  have "sub_tags py tgt n st (CHR ''<'' # CHR ''?'' # ws @ tgt @ w # x) =
           (case exec_and_dump py n st b None of
              (Inl e, st') \<Rightarrow> (Inl e, st')
            | (Inr res, st') \<Rightarrow>
                (case sub_tags py tgt n st' r of
                   (Inl e, st'') \<Rightarrow> (Inl e, st'')
                 | (Inr out, st'') \<Rightarrow>
                     (Inr ((case res of None \<Rightarrow> [] | Some t \<Rightarrow> t) @ out), st'')))"
    unfolding sub_tags.simps(2) m by simp
  then show ?thesis by (simp del: sub_tags.simps)
qed

lemma search_open:
  assumes "tgt \<noteq> []" "\<not> is_space (hd tgt)" "\<forall>c \<in> set ws. is_space c" "is_space w"
    and "str_find a ''<?'' = None"
  shows "search_pi_beg tgt (a @ ''<?'' @ ws @ tgt @ w # x)
           = Some (length a, length a + length ws + length tgt + 3)"
proof -
  have "search_pi_beg tgt (''<?'' @ ws @ tgt @ w # x) = Some (0, length ws + length tgt + 3)"
    using match_pi_beg_shape [OF assms(3) assms(1) assms(2) assms(4), of x] by simp
  with search_before_open [OF assms(5), of tgt "''?'' @ ws @ tgt @ w # x"] show ?thesis
    by simp
qed

lemma scan_rest_open:
  assumes "tgt \<noteq> []" "\<forall>c \<in> set tgt. \<not> is_space c \<and> c \<noteq> CHR ''<''"
    and "\<forall>c \<in> set ws. is_space c" "is_space w" "lazy_body x = None"
    and "str_find a ''<?'' = None"
  shows "scan_rest py tgt st sc (a @ ''<?'' @ ws @ tgt @ w # x) =
           (case sub_tags py tgt (line_num sc) st x of
              (Inl e, st') \<Rightarrow> (Some e, st', sc\<lparr>this_pi_tag_beg_ln := line_num sc\<rparr>)
            | (Inr out, st') \<Rightarrow>
                (None, stream_write (out_stream st') a (st'\<lparr>code_buffer := w # out\<rparr>),
                 sc\<lparr>in_pi_tag := True, this_pi_tag_beg_ln := line_num sc\<rparr>))"
proof -
  from assms(1,2) have hd: "\<not> is_space (hd tgt)" by (cases tgt) auto
  let ?line = "a @ ''<?'' @ ws @ tgt @ w # x"
  obtain r st' where x: "sub_tags py tgt (line_num sc) st x = (r, st')"
    by (cases "sub_tags py tgt (line_num sc) st x") auto
  have o: "sub_tags py tgt (line_num sc) st (''<?'' @ ws @ tgt @ w # x) =
           (case r of Inl e \<Rightarrow> (Inl e, st')
            | Inr out \<Rightarrow> (Inr (''<?'' @ ws @ tgt @ w # out), st'))"
    unfolding sub_tags_open_unmatched [OF assms(1-5)] x by (simp split: sum.splits)
  have sub: "sub_tags py tgt (line_num sc) st ?line =
           (case r of Inl e \<Rightarrow> (Inl e, st')
            | Inr out \<Rightarrow> (Inr (a @ ''<?'' @ ws @ tgt @ w # out), st'))"
    using sub_tags_before_open [OF assms(6), of py tgt "line_num sc" st "''?'' @ ws @ tgt @ w # x"] o
    by (simp split: sum.splits del: sub_tags.simps)
  have f: "str_find ?line ''<?'' \<noteq> None" by (rule str_find_occurs)
  show ?thesis
  proof (cases r)
    case (Inl e)
    with sub f x show ?thesis
      by (simp add: scan_rest_def Let_def del: sub_tags.simps str_find.simps)
  next
    case (Inr out)
    have se: "search_pi_beg tgt (a @ ''<?'' @ ws @ tgt @ w # out)
              = Some (length a, length a + length ws + length tgt + 3)"
      by (rule search_open [OF assms(1) hd assms(3,4,6)])
    have dr: "drop (length a + length ws + length tgt + 3 - 1) (a @ ''<?'' @ ws @ tgt @ w # out)
              = w # out"
      by simp
    from Inr sub f x se dr assms(4) show ?thesis
      by (simp add: scan_rest_def Let_def
          del: sub_tags.simps str_find.simps search_pi_beg.simps append.simps drop_append)
  qed
qed

lemma scan_rest_tag_error:
  assumes "tgt \<noteq> []" "\<not> is_space (hd tgt)" "\<forall>c \<in> set ws. is_space c" "is_space w"
    and "lazy_body x = Some (b, r)" "str_find a ''<?'' = None"
    and "fst (exec_and_dump py (line_num sc) st b None) = Inl e"
  shows "fst (scan_rest py tgt st sc (a @ ''<?'' @ ws @ tgt @ w # x)) = Some e"
proof -
  let ?line = "a @ ''<?'' @ ws @ tgt @ w # x"
  obtain st' where e: "exec_and_dump py (line_num sc) st b None = (Inl e, st')"
    using assms(7) by (cases "exec_and_dump py (line_num sc) st b None") auto
  have o: "sub_tags py tgt (line_num sc) st (''<?'' @ ws @ tgt @ w # x) = (Inl e, st')"
    unfolding sub_tags_open_matched [OF assms(1-5)] e by simp
  have sub: "sub_tags py tgt (line_num sc) st ?line = (Inl e, st')"
    using sub_tags_before_open [OF assms(6), of py tgt "line_num sc" st "''?'' @ ws @ tgt @ w # x"] o
    by (simp del: sub_tags.simps)
  have f: "str_find ?line ''<?'' \<noteq> None" by (rule str_find_occurs)
  from sub f show ?thesis
    by (simp add: scan_rest_def Let_def del: sub_tags.simps str_find.simps)
qed

subsection \<open>The lines of an open tag\<close>

lemma str_find_close_at:
  assumes "str_find m ''?>'' = None"
  shows "str_find (m @ ''?>'' @ r) ''?>'' = Some (length m)"
proof (rule str_find_first)
  show "prefix ''?>'' (drop (length m) (m @ ''?>'' @ r))" by simp
  show "length m \<le> length (m @ ''?>'' @ r)" by simp
  show "\<forall>j < length m. \<not> prefix ''?>'' (drop j (m @ ''?>'' @ r))"
  proof (intro allI impI)
    fix j assume j: "j < length m"
    then obtain c cs where d: "drop j m = c # cs" by (cases "drop j m") auto
    from assms j have n: "\<not> prefix ''?>'' (drop j m)" by (simp add: str_find_None_iff)
    show "\<not> prefix ''?>'' (drop j (m @ ''?>'' @ r))"
    proof
      assume "prefix ''?>'' (drop j (m @ ''?>'' @ r))"
      moreover have "drop j (m @ ''?>'' @ r) = c # cs @ ''?>'' @ r" using j d by simp
      ultimately have p: "prefix ''?>'' (c # cs @ ''?>'' @ r)" by (simp only:)
      show False
      proof (cases cs)
        case Nil
        with p show False by simp
      next
        case (Cons d' cs')
        with p have "prefix ''?>'' (c # cs)" by simp
        with n d show False by simp
      qed
    qed
  qed
qed

lemma in_tag_error:
  assumes "in_pi_tag sc" "str_find m ''?>'' = None" "src = code_buffer st @ m"
    and "\<And>st'. fst (exec_and_dump py (this_pi_tag_beg_ln sc) st' src (Some (out_stream st')))
                 = Inl e"
  shows "fst (input_lines py tgt st sc (readlines (m @ ''?>'' @ rest))) = Some e"
  using assms
proof (induction "length m" arbitrary: m st sc rule: less_induct)
  case less
  show ?case
  proof (cases "newline \<in> set m")
    case True
    then obtain m1 m2 where m: "m = m1 @ newline # m2" "newline \<notin> set m1"
      by (auto dest: split_list_first)
    have rl: "readlines (m @ ''?>'' @ rest)
                = (m1 @ [newline]) # readlines (m2 @ ''?>'' @ rest)"
      using readlines_break [OF m(2), of "m2 @ ''?>'' @ rest"] m(1) by simp
    from less.prems(2) m(1) have "str_find ((m1 @ [newline]) @ m2) ''?>'' = None" by simp
    from str_find_None_appendD [OF this]
    have f1: "str_find (m1 @ [newline]) ''?>'' = None" and f2: "str_find m2 ''?>'' = None"
      by simp_all
    let ?st1 = "st\<lparr>code_buffer := code_buffer st @ m1 @ [newline]\<rparr>"
    let ?sc1 = "sc\<lparr>line_num := line_num sc + 1\<rparr>"
    have step: "input_line py tgt st sc (m1 @ [newline]) = (None, ?st1, ?sc1)"
      using less.prems(1) f1 by (simp add: input_line_def Let_def del: str_find.simps)
    have "fst (input_lines py tgt ?st1 ?sc1 (readlines (m2 @ ''?>'' @ rest))) = Some e"
    proof (rule less.hyps)
      show "length m2 < length m" using m(1) by simp
      show "in_pi_tag ?sc1" using less.prems(1) by simp
      show "str_find m2 ''?>'' = None" by (rule f2)
      show "src = code_buffer ?st1 @ m2" using less.prems(3) m(1) by simp
      show "fst (exec_and_dump py (this_pi_tag_beg_ln ?sc1) st' src (Some (out_stream st')))
              = Inl e" for st'
        using less.prems(4) [of st'] by simp
    qed
    with rl step show ?thesis by simp
  next
    case False
    have "newline \<notin> set (m @ ''?>'')" using False by (simp add: newline_def)
    from readlines_no_break [OF this, of rest] obtain l0 ls where
      rl: "readlines (m @ ''?>'' @ rest) = (m @ ''?>'' @ l0) # ls"
      by (cases "readlines rest") auto
    have f: "str_find (m @ ''?>'' @ l0) ''?>'' = Some (length m)"
      using less.prems(2) by (rule str_find_close_at)
    let ?st1 = "st\<lparr>code_buffer := code_buffer st @ m\<rparr>"
    from less.prems(4) [of ?st1] less.prems(3) obtain st2 where
      "exec_and_dump py (this_pi_tag_beg_ln sc) ?st1 (code_buffer st @ m) (Some (out_stream st))
         = (Inl e, st2)"
      by (cases "exec_and_dump py (this_pi_tag_beg_ln sc) ?st1 (code_buffer st @ m)
            (Some (out_stream st))") auto
    with less.prems(1) f have "fst (input_line py tgt st sc (m @ ''?>'' @ l0)) = Some e"
      by (simp add: input_line_def Let_def del: str_find.simps)
    with rl show ?thesis
      by (cases "input_line py tgt st sc (m @ ''?>'' @ l0)") (auto split: option.splits)
  qed
qed

lemma is_space_newline: "is_space newline"
  by (simp add: is_space_def newline_def)

lemma input_lines_first_error:
  "fst (input_line py tgt st sc l) = Some e \<Longrightarrow> fst (input_lines py tgt st sc (l # ls)) = Some e"
  by (cases "input_line py tgt st sc l") (auto split: option.splits)

subsection \<open>Whitespace before the target\<close>

lemma scan_rest_ws:
  assumes "tgt \<noteq> []" "\<forall>c \<in> set tgt. \<not> is_space c \<and> c \<noteq> CHR ''<''"
    and "\<forall>c \<in> set ws. is_space c" "is_space w" "str_find a ''<?'' = None"
  shows "scan_rest py tgt st sc (a @ ''<?'' @ ws @ tgt @ w # x)
           = scan_rest py tgt st sc (a @ ''<?'' @ [] @ tgt @ w # x)"
proof (cases "lazy_body x")
  case None
  have e: "\<forall>c \<in> set ([] :: string). is_space c" by simp
  show ?thesis
    unfolding scan_rest_open [OF assms(1-4) None assms(5)]
      scan_rest_open [OF assms(1,2) e assms(4) None assms(5)] ..
next
  case (Some y)
  obtain b r where y: "lazy_body x = Some (b, r)" using Some by (cases y) auto
  from assms(1,2) have hd: "\<not> is_space (hd tgt)" by (cases tgt) auto
  have e: "\<forall>c \<in> set ([] :: string). is_space c" by simp
  have sub: "sub_tags py tgt n st (a @ ''<?'' @ ws @ tgt @ w # x)
               = sub_tags py tgt n st (a @ ''<?'' @ [] @ tgt @ w # x)" for n
    using sub_tags_before_open [OF assms(5), of py tgt n st "''?'' @ ws @ tgt @ w # x"]
      sub_tags_before_open [OF assms(5), of py tgt n st "''?'' @ [] @ tgt @ w # x"]
      sub_tags_open_matched [OF assms(1) hd assms(3,4) y, of py n st]
      sub_tags_open_matched [OF assms(1) hd e assms(4) y, of py n st]
    by (simp del: sub_tags.simps)
  have f1: "str_find (a @ ''<?'' @ ws @ tgt @ w # x) ''<?'' \<noteq> None"
    by (rule str_find_occurs)
  have f2: "str_find (a @ ''<?'' @ [] @ tgt @ w # x) ''<?'' \<noteq> None"
    by (rule str_find_occurs)
  show ?thesis
    unfolding scan_rest_def Let_def sub using f1 f2
    by (simp del: sub_tags.simps search_pi_beg.simps str_find.simps)
qed

lemma readlines_first_char:
  "readlines (c # s) = l # ls \<Longrightarrow> \<exists>x. l = c # x"
  by (auto split: if_splits list.splits)

lemma readlines_Cons_not_Nil: "readlines (c # s) \<noteq> []"
  by (auto split: list.splits)

subsection \<open>The whitespace after the target\<close>

lemma search_pi_beg_Some:
  "search_pi_beg tgt line = Some (i, e) \<Longrightarrow>
     i \<le> e \<and> i \<le> length line \<and> match_pi_beg tgt (drop i line) = Some (e - i)"
proof (induction line arbitrary: i e)
  case Nil
  then show ?case by simp
next
  case (Cons c s)
  show ?case
  proof (cases "match_pi_beg tgt (c # s)")
    case (Some e')
    with Cons.prems show ?thesis by simp
  next
    case None
    with Cons.prems obtain i' e' where
      s: "search_pi_beg tgt s = Some (i', e')" "i = Suc i'" "e = Suc e'"
      by auto
    from Cons.IH [OF s(1)] s(2,3) show ?thesis by simp
  qed
qed

lemma search_pi_beg_decomp:
  assumes "search_pi_beg tgt line = Some (i, e)"
  shows "\<exists>ws w r. drop i line = ''<?'' @ ws @ tgt @ w # r \<and> is_space w
           \<and> drop (e - 1) line = w # r"
proof -
  from search_pi_beg_Some [OF assms] have ie: "i \<le> e"
    and m: "match_pi_beg tgt (drop i line) = Some (e - i)" by auto
  from match_pi_beg_decomp [OF m] obtain ws w r where
    d: "drop i line = ''<?'' @ ws @ tgt @ w # r" "is_space w" "e - i = length ws + length tgt + 3"
    by blast
  from d(3) ie have "e - 1 = length (''<?'' @ ws @ tgt) + i" by simp
  then have "drop (e - 1) line = drop (length (''<?'' @ ws @ tgt)) (drop i line)"
    by (simp only: drop_drop)
  also have "\<dots> = w # r" unfolding d(1) by simp
  finally show ?thesis using d(1,2) by blast
qed

lemma scan_rest_opens:
  assumes "\<not> in_pi_tag sc" "scan_rest py tgt st sc line = (None, st', sc')" "in_pi_tag sc'"
  shows "\<exists>w x. code_buffer st' = w # x \<and> is_space w"
  using assms
  by (auto simp: scan_rest_def Let_def
      split: if_splits prod.splits sum.splits option.splits list.splits)

subsection \<open>What is stable under every run is stable under the processor\<close>

lemma stdout_write_globals [simp]: "exec_globals (stdout_write s st) = exec_globals st"
  by (simp add: stdout_write_def split: stdout_target.splits)

lemma exec_py_state:
  "snd (exec_py py st src ln) = st
   \<or> (\<exists>code r ns' out. py_exec py code (exec_globals st) = (r, ns', out)
         \<and> snd (exec_py py st src ln) = stdout_write out (st\<lparr>exec_globals := ns'\<rparr>))"
proof (cases "ast_parse py src")
  case (Inl e)
  then show ?thesis
    by (cases e) (simp_all add: exec_py_def Let_def split: option.splits)
next
  case (Inr t)
  show ?thesis
  proof (cases "if ln - 1 \<noteq> 0 then visit (ln - 1) t else Some t")
    case None
    with Inr show ?thesis by (simp add: exec_py_def Let_def)
  next
    case (Some shifted)
    show ?thesis
    proof (cases "py_compile py shifted")
      case (Inl e)
      with Inr Some show ?thesis by (simp add: exec_py_def Let_def)
    next
      case compiled: (Inr code)
      obtain r ns' out where x: "py_exec py code (exec_globals st) = (r, ns', out)"
        by (cases "py_exec py code (exec_globals st)")
      have "snd (exec_py py st src ln) = st
            \<or> snd (exec_py py st src ln) = stdout_write out (st\<lparr>exec_globals := ns'\<rparr>)"
        using Inr Some compiled x
        by (cases r) (simp_all add: exec_py_def Let_def)
      with x show ?thesis by blast
    qed
  qed
qed

lemma exec_py_inv:
  assumes "\<And>code ns. P ns \<Longrightarrow> P (fst (snd (py_exec py code ns)))" "P (exec_globals st)"
  shows "P (exec_globals (snd (exec_py py st src ln)))"
proof -
  from exec_py_state [of py st src ln] show ?thesis
  proof (elim disjE exE conjE)
    assume "snd (exec_py py st src ln) = st"
    with assms(2) show ?thesis by simp
  next
    fix code r ns' out
    assume x: "py_exec py code (exec_globals st) = (r, ns', out)"
      and s: "snd (exec_py py st src ln) = stdout_write out (st\<lparr>exec_globals := ns'\<rparr>)"
    from assms(1) [OF assms(2), of code] x have "P ns'" by simp
    with s show ?thesis by simp
  qed
qed

lemma exec_and_dump_inv:
  assumes "\<And>code ns. P ns \<Longrightarrow> P (fst (snd (py_exec py code ns)))" "P (exec_globals st)"
  shows "P (exec_globals (snd (exec_and_dump py ln st src f)))"
proof -
  obtain r st' where e: "exec_py py (st\<lparr>print_buffer := []\<rparr>) src ln = (r, st')"
    by (cases "exec_py py (st\<lparr>print_buffer := []\<rparr>) src ln")
  have "P (exec_globals (snd (exec_py py (st\<lparr>print_buffer := []\<rparr>) src ln)))"
  proof (rule exec_py_inv [where P = P and py = py, OF assms(1)])
    show "P (exec_globals (st\<lparr>print_buffer := []\<rparr>))" using assms(2) by simp
  qed
  with e have p: "P (exec_globals st')" by simp
  show ?thesis
  proof (cases r)
    case None
    with e p show ?thesis
      by (cases f) (simp_all add: exec_and_dump_def)
  next
    case (Some err)
    with e p show ?thesis by (simp add: exec_and_dump_def)
  qed
qed

lemma sub_tags_inv:
  assumes "\<And>code ns. P ns \<Longrightarrow> P (fst (snd (py_exec py code ns)))" "P (exec_globals st)"
  shows "P (exec_globals (snd (sub_tags py tgt n st s)))"
  using assms
proof (induction py tgt n st s rule: sub_tags.induct)
  case (1 py tgt beg_ln st)
  then show ?case by simp
next
  case (2 py tgt beg_ln st c s)
  note IH = "2.IH" and inv = "2.prems"(1) and prem = "2.prems"(2)
  show ?case
  proof (cases "match_pi_tag tgt (c # s)")
    case None
    obtain r st' where t: "sub_tags py tgt beg_ln st s = (r, st')"
      by (cases "sub_tags py tgt beg_ln st s")
    from IH(1) [OF None inv prem] t have "P (exec_globals st')" by simp
    with None t show ?thesis by (cases r) simp_all
  next
    case (Some x)
    obtain body rest where x: "x = (body, rest)" by (cases x)
    obtain r st' where e: "exec_and_dump py beg_ln st body None = (r, st')"
      by (cases "exec_and_dump py beg_ln st body None")
    from exec_and_dump_inv [where P = P and py = py, OF inv prem, of beg_ln body None] e
    have p: "P (exec_globals st')" by simp
    show ?thesis
    proof (cases r)
      case (Inl err)
      with Some x e p show ?thesis by simp
    next
      case (Inr res)
      obtain r2 st2 where t: "sub_tags py tgt beg_ln st' rest = (r2, st2)"
        by (cases "sub_tags py tgt beg_ln st' rest")
      from IH(2) [OF Some x [symmetric] e [symmetric] Inr inv p] t
      have "P (exec_globals st2)" by simp
      with Some x e Inr t show ?thesis by (cases r2) simp_all
    qed
  qed
qed

lemma scan_rest_inv:
  assumes "\<And>code ns. P ns \<Longrightarrow> P (fst (snd (py_exec py code ns)))" "P (exec_globals st)"
  shows "P (exec_globals (fst (snd (scan_rest py tgt st sc line))))"
proof -
  obtain r st1 where s: "sub_tags py tgt (line_num sc) st line = (r, st1)"
    by (cases "sub_tags py tgt (line_num sc) st line")
  from sub_tags_inv [where P = P and py = py, OF assms, of tgt "line_num sc" line] s
  have p: "P (exec_globals st1)" by simp
  show ?thesis
  proof (cases "str_find line ''<?'' \<noteq> None")
    case False
    with assms(2) show ?thesis by (simp add: scan_rest_def)
  next
    case True
    show ?thesis
    proof (cases r)
      case (Inl e)
      with True s p show ?thesis by (simp add: scan_rest_def Let_def del: sub_tags.simps)
    next
      case (Inr line1)
      with True s p show ?thesis
        by (simp add: scan_rest_def Let_def split: option.splits prod.splits list.splits
            del: sub_tags.simps)
    qed
  qed
qed

lemma input_line_inv:
  assumes "\<And>code ns. P ns \<Longrightarrow> P (fst (snd (py_exec py code ns)))" "P (exec_globals st)"
  shows "P (exec_globals (fst (snd (input_line py tgt st sc line))))"
proof (cases "in_pi_tag sc")
  case False
  with scan_rest_inv [where P = P and py = py, OF assms] show ?thesis
    by (simp add: input_line_def Let_def)
next
  case True
  show ?thesis
  proof (cases "str_find line ''?>''")
    case None
    with True assms(2) show ?thesis by (simp add: input_line_def Let_def)
  next
    case (Some end_pos)
    let ?st1 = "st\<lparr>code_buffer := code_buffer st @ take end_pos line\<rparr>"
    obtain r st2 where
      e: "exec_and_dump py (this_pi_tag_beg_ln sc) ?st1 (code_buffer st @ take end_pos line)
            (Some (out_stream st)) = (r, st2)"
      by (cases "exec_and_dump py (this_pi_tag_beg_ln sc) ?st1
            (code_buffer st @ take end_pos line) (Some (out_stream st))")
    have "P (exec_globals ?st1)" using assms(2) by simp
    from exec_and_dump_inv [where P = P and py = py, OF assms(1) this,
        of "this_pi_tag_beg_ln sc" "code_buffer st @ take end_pos line" "Some (out_stream st)"] e
    have p: "P (exec_globals st2)" by simp
    show ?thesis
    proof (cases r)
      case (Inl err)
      with True Some e p show ?thesis by (simp add: input_line_def Let_def)
    next
      case (Inr res)
      with True Some e scan_rest_inv [where P = P and py = py, OF assms(1) p] show ?thesis
        by (simp add: input_line_def Let_def)
    qed
  qed
qed

lemma input_lines_inv:
  assumes "\<And>code ns. P ns \<Longrightarrow> P (fst (snd (py_exec py code ns)))" "P (exec_globals st)"
  shows "P (exec_globals (fst (snd (input_lines py tgt st sc ls))))"
  using assms(2)
proof (induction ls arbitrary: st sc)
  case Nil
  then show ?case by simp
next
  case (Cons l ls)
  obtain r st1 sc1 where l: "input_line py tgt st sc l = (r, st1, sc1)"
    by (cases "input_line py tgt st sc l")
  from input_line_inv [where P = P and py = py, OF assms(1) Cons.prems, of tgt sc l] l
  have p: "P (exec_globals st1)" by simp
  show ?case
  proof (cases r)
    case None
    with l Cons.IH [OF p, of sc1] show ?thesis by simp
  next
    case (Some e)
    with l p show ?thesis by simp
  qed
qed

lemma input_inv:
  assumes "\<And>code ns. P ns \<Longrightarrow> P (fst (snd (py_exec py code ns)))" "P (exec_globals st)"
  shows "P (exec_globals (snd (input py tgt st doc)))"
proof -
  let ?sc0 = "\<lparr>line_num = 0, in_pi_tag = False, this_pi_tag_beg_ln = 0\<rparr>"
  let ?st0 = "st\<lparr>sys_stdout := PrintBuffer\<rparr>"
  obtain r st1 sc1 where l: "input_lines py tgt ?st0 ?sc0 (readlines doc) = (r, st1, sc1)"
    by (cases "input_lines py tgt ?st0 ?sc0 (readlines doc)")
  have "P (exec_globals ?st0)" using assms(2) by simp
  from input_lines_inv [where P = P and py = py, OF assms(1) this, of tgt ?sc0 "readlines doc"] l
  have "P (exec_globals st1)" by simp
  with l show ?thesis
    by (cases r) (simp_all add: input_def Let_def)
qed

lemma exec_cmds_inv:
  assumes "\<And>code ns. P ns \<Longrightarrow> P (fst (snd (py_exec py code ns)))" "P (exec_globals st)"
  shows "P (exec_globals (snd (exec_cmds py st cmds)))"
  using assms(2)
proof (induction cmds arbitrary: st)
  case Nil
  then show ?case by simp
next
  case (Cons c cs)
  obtain r st1 where e: "exec_py py st c 1 = (r, st1)" by (cases "exec_py py st c 1")
  from exec_py_inv [where P = P and py = py, OF assms(1) Cons.prems, of c 1] e
  have p: "P (exec_globals st1)" by simp
  show ?case
  proof (cases r)
    case None
    with e Cons.IH [OF p] show ?thesis by simp
  next
    case (Some err)
    with e p show ?thesis by simp
  qed
qed

lemma input_all_inv:
  assumes "\<And>code ns. P ns \<Longrightarrow> P (fst (snd (py_exec py code ns)))" "P (exec_globals st)"
  shows "P (exec_globals (snd (input_all py tgt st docs)))"
  using assms(2)
proof (induction docs arbitrary: st)
  case Nil
  then show ?case by simp
next
  case (Cons d ds)
  obtain r st1 where e: "input py tgt st d = (r, st1)" by (cases "input py tgt st d")
  from input_inv [where P = P and py = py, OF assms(1) Cons.prems, of tgt d] e
  have p: "P (exec_globals st1)" by simp
  show ?case
  proof (cases r)
    case None
    with e Cons.IH [OF p] show ?thesis by simp
  next
    case (Some err)
    with e p show ?thesis by simp
  qed
qed

lemma main_run_inv:
  assumes "\<And>code ns. P ns \<Longrightarrow> P (fst (snd (py_exec py code ns)))" "P (exec_globals st)"
  shows "P (exec_globals (snd (main_run py tgt st cmds inputs stdin)))"
proof -
  obtain r st1 where e: "exec_cmds py st cmds = (r, st1)" by (cases "exec_cmds py st cmds")
  from exec_cmds_inv [where P = P and py = py, OF assms, of cmds] e
  have p: "P (exec_globals st1)" by simp
  show ?thesis
  proof (cases r)
    case None
    with e input_all_inv [where P = P and py = py, OF assms(1) p, of tgt inputs]
      input_inv [where P = P and py = py, OF assms(1) p, of tgt stdin]
    show ?thesis by (simp add: main_run_def)
  next
    case (Some err)
    with e p show ?thesis by (simp add: main_run_def)
  qed
qed

subsection \<open>The line of a syntax error that the parser finds\<close>

text \<open>
  For a syntax error that \<^verbatim>\<open>ast.parse\<close> raises the line is shifted as it should be. Let a
  tag begin on line \<open>L\<close> of the document: \<open>pre\<close> is the text of the lines before, read
  without error and ending outside a tag, and \<open>a\<close> is the text before the tag on its
  line. If the tag is closed on its line its source is \<open>b\<close>; if \<open>w\<close> or \<open>b\<close> holds a line
  break the tag runs over several lines and its source is \<open>w\<close> followed by \<open>b\<close>. When the
  parser finds a syntax error on line \<open>n\<close> of the source, the document fails with a
  \<^verbatim>\<open>PythonError\<close> that wraps the syntax error with line \<open>L + n - 1\<close>.
\<close>

lemma syntax_error_line:
  assumes tgt: "tgt \<noteq> []" "\<forall>c \<in> set tgt. \<not> is_space c \<and> c \<noteq> CHR ''<''"
    and pre: "pre = [] \<or> last pre = newline" "fst (input py tgt st pre) = None"
    and L: "L = int (length (readlines pre)) + 1"
    and a: "newline \<notin> set a" "str_find a ''<?'' = None"
    and w: "is_space w"
    and b: "str_find b ''?>'' = None" "b \<noteq> [] \<or> w = newline"
    and err: "ast_parse py (if newline \<in> set (w # b) then w # b else b)
                = Inl (SyntaxError (Some n) (Some m))"
  shows "fst (input py tgt st (pre @ a @ ''<?'' @ tgt @ w # b @ ''?>'' @ rest))
           = Some (PythonError (SyntaxError (Some (L + n - 1)) (Some (L + m - 1))))"
proof -
  let ?e = "PythonError (SyntaxError (Some (n + L - 1)) (Some (m + L - 1)))"
  let ?X = "a @ ''<?'' @ tgt @ w # b @ ''?>'' @ rest"
  from tgt have hd: "\<not> is_space (hd tgt)" by (cases tgt) auto
  from tgt(2) is_space_newline have nt: "newline \<notin> set tgt" by blast
  from input_after [OF pre, of ?X] obtain st1 sc1 where
    sc1: "\<not> in_pi_tag sc1" "line_num sc1 = L - 1"
    and inp: "fst (input py tgt st (pre @ ?X))
               = (case input_lines py tgt st1 sc1 (readlines ?X) of
                    (Some e, st2, sc2) \<Rightarrow> Some e
                  | (None, st2, sc2) \<Rightarrow>
                      if in_pi_tag sc2 then Some (XmlError (never_closed (this_pi_tag_beg_ln sc2)))
                      else None)"
    using L by auto
  from L have L1: "1 \<le> L" by simp
  let ?sc = "sc1\<lparr>line_num := line_num sc1 + 1\<rparr>"
  have ln: "line_num ?sc = L" using sc1(2) by simp
  have "fst (input_lines py tgt st1 sc1 (readlines ?X)) = Some ?e"
  proof (cases "newline \<in> set (w # b)")
    case False
    with b(2) obtain c b' where b': "b = c # b'" by (cases b) auto
    with False have c: "c \<noteq> newline" "newline \<notin> set b'" by auto
    from b(1) b' have "str_find ([c] @ b') ''?>'' = None" by simp
    then have "str_find b' ''?>'' = None" by (rule str_find_None_appendD(1))
    with c have "lazy_body (c # b' @ ''?>'' @ l0) = Some (c # b', l0)" for l0
      by (rule lazy_body_intro)
    then have lb: "lazy_body (b @ ''?>'' @ l0) = Some (b, l0)" for l0
      unfolding b' by simp
    from False a(1) nt have "newline \<notin> set (a @ ''<?'' @ tgt @ w # b @ ''?>'')"
      by (auto simp: newline_def)
    from readlines_no_break [OF this, of rest] obtain l0 ls where
      rl: "readlines ?X = (a @ ''<?'' @ [] @ tgt @ w # (b @ ''?>'' @ l0)) # ls"
      by (cases "readlines rest") auto
    from err False have "ast_parse py b = Inl (SyntaxError (Some n) (Some m))" by simp
    then have "fst (exec_and_dump py (line_num ?sc) st1 b None) = Inl ?e"
      unfolding ln using L1 by (rule exec_and_dump_syntax_error)
    with tgt(1) hd w lb a(2)
    have "fst (scan_rest py tgt st1 ?sc (a @ ''<?'' @ [] @ tgt @ w # (b @ ''?>'' @ l0))) = Some ?e"
      by (intro scan_rest_tag_error [where b = b and r = l0]) simp_all
    with sc1(1)
    have "fst (input_line py tgt st1 sc1 (a @ ''<?'' @ [] @ tgt @ w # (b @ ''?>'' @ l0))) = Some ?e"
      by (simp add: input_line_def Let_def)
    then show ?thesis unfolding rl by (rule input_lines_first_error)
  next
    case True
    from split_list_first [OF True] obtain l1 m2 where
      s: "w # b = l1 @ newline # m2" "newline \<notin> set l1"
      by blast
    obtain x where x: "l1 @ [newline] = w # x" "b = x @ m2"
      using s(1) by (cases l1) auto
    from b(1) x(2) have fx: "str_find x ''?>'' = None" and fm: "str_find m2 ''?>'' = None"
      using str_find_None_appendD [of x m2 "''?>''"] by simp_all
    from s(2) a(1) nt have "newline \<notin> set (a @ ''<?'' @ tgt @ l1)"
      by (auto simp: newline_def)
    from readlines_break [OF this, of "m2 @ ''?>'' @ rest"] s(1) x(1)
    have rl: "readlines ?X = (a @ ''<?'' @ [] @ tgt @ w # x) # readlines (m2 @ ''?>'' @ rest)"
      by (metis (no_types, lifting) append.assoc append_Cons append_Nil)
    let ?st2 = "stream_write (out_stream st1) a (st1\<lparr>code_buffer := w # x\<rparr>)"
    let ?sc2 = "?sc\<lparr>in_pi_tag := True, this_pi_tag_beg_ln := line_num ?sc\<rparr>"
    have "scan_rest py tgt st1 ?sc (a @ ''<?'' @ [] @ tgt @ w # x) = (None, ?st2, ?sc2)"
      using scan_rest_open [OF tgt _ w lazy_body_None [OF fx] a(2), of "[]" py st1 ?sc]
        sub_tags_no_close [OF fx, of py tgt "line_num ?sc" st1]
      by simp
    with sc1(1)
    have il: "input_line py tgt st1 sc1 (a @ ''<?'' @ [] @ tgt @ w # x) = (None, ?st2, ?sc2)"
      by (simp add: input_line_def Let_def)
    from err True have p: "ast_parse py (w # b) = Inl (SyntaxError (Some n) (Some m))" by simp
    have "fst (input_lines py tgt ?st2 ?sc2 (readlines (m2 @ ''?>'' @ rest))) = Some ?e"
    proof (rule in_tag_error [where src = "w # b"])
      show "in_pi_tag ?sc2" by simp
      show "str_find m2 ''?>'' = None" by (rule fm)
      show "w # b = code_buffer ?st2 @ m2" using x(2) by simp
      show "fst (exec_and_dump py (this_pi_tag_beg_ln ?sc2) st' (w # b) (Some (out_stream st')))
              = Inl ?e" for st'
        using exec_and_dump_syntax_error [OF p L1, of st' "Some (out_stream st')"] ln by simp
    qed
    with il show ?thesis unfolding rl by simp
  qed
  then show ?thesis
    unfolding inp
    by (cases "input_lines py tgt st1 sc1 (readlines ?X)") (auto simp: add.commute)
qed

lemma exec_py_compile_error:
  assumes "ast_parse py src = Inr t" and "1 \<le> ln"
    and "(if ln - 1 \<noteq> 0 then visit (ln - 1) t else Some t) = Some shifted"
    and "py_compile py shifted = Inl e"
  shows "exec_py py st src ln = (Some (Propagated e), st)"
  using assms by (simp add: exec_py_def Let_def)


subsection \<open>Tags that run to their end\<close>













subsection \<open>Documents without tags\<close>

text \<open>
  Claim C1. A document in which no line holds a tag opening (the opening marker,
  optional whitespace, the target and a whitespace character) is copied to the output
  sink as it is: the processing ends without error, the sink has received the text of
  the document, character for character, and nothing else of the processor has
  changed.
\<close>

theorem passthrough:
  assumes "\<forall>l \<in> set (readlines doc). search_pi_beg tgt l = None"
  shows "input py tgt st doc = (None, stream_write (out_stream st) doc st)"
proof -
  let ?st0 = "st\<lparr>sys_stdout := PrintBuffer\<rparr>"
  let ?sc0 = "\<lparr>line_num = 0, in_pi_tag = False, this_pi_tag_beg_ln = 0\<rparr>"
  from input_lines_plain [OF assms, of ?sc0 py ?st0] obtain sc' where
    "input_lines py tgt ?st0 ?sc0 (readlines doc)
       = (None, stream_write (out_stream ?st0) (concat (readlines doc)) ?st0, sc')"
    "\<not> in_pi_tag sc'"
    by auto
  then show ?thesis
    by (simp add: input_def readlines_concat restore_stdout)
qed

theorem passthrough_witness:
  "input log_python ''py'' (init OutFile []) ''<?xml version=1?><a>b</a>''
     = (None, stream_write OutFile ''<?xml version=1?><a>b</a>'' (init OutFile []))"
proof -
  have rl: "readlines ''<?xml version=1?><a>b</a>'' = [''<?xml version=1?><a>b</a>'']"
    by (simp add: newline_def)
  have sp: "search_pi_beg ''py'' ''<?xml version=1?><a>b</a>'' = None"
    by (simp add: match_pi_beg_def target_at_def is_space_def)
  have h: "\<forall>l \<in> set (readlines ''<?xml version=1?><a>b</a>''). search_pi_beg ''py'' l = None"
    by (simp only: rl sp list.set ball_simps)
  have o: "out_stream (init OutFile ([] :: string list)) = OutFile"
    by (simp add: init_def)
  show ?thesis
    using passthrough [OF h, of log_python "init OutFile []"] by (simp only: o)
qed

subsection \<open>The scenario with two tags on a line\<close>

text \<open>
  Claim C2, as the specification states it, fails: \<^verbatim>\<open>print('x')\<close> writes \<^verbatim>\<open>x\<close> and a line
  break, and the text captured for a tag is exactly what the snippet wrote, so the
  output of \<^verbatim>\<open>A<?py print('x')?>B<?py print('y')?>C\<close> is not \<^verbatim>\<open>AxByC\<close>.
\<close>

theorem scenario_output_counterexample:
  "sink_text (snd (input demo_python ''py'' (init OutFile [])
      ''A<?py print('x')?>B<?py print('y')?>C'')) \<noteq> ''AxByC''"
  by (simp add: scan_defs init_def demo_python_def demo_parse_def demo_exec_def)

text \<open>
  Claim C2, amended. With any interpreter for which \<^verbatim>\<open>print('x')\<close> writes \<^verbatim>\<open>x\<close> and a line
  break and \<^verbatim>\<open>print('y')\<close> writes \<^verbatim>\<open>y\<close> and a line break, processing the one-line
  document \<^verbatim>\<open>A<?py print('x')?>B<?py print('y')?>C\<close> with the target \<^verbatim>\<open>py\<close> ends without
  error and appends \<^verbatim>\<open>Ax\<close>, a line break, \<^verbatim>\<open>By\<close>, a line break and \<^verbatim>\<open>C\<close> to the output
  sink; the second snippet runs in the namespace the first one left.
\<close>

theorem scenario_output:
  assumes "ast_parse py ''print('x')'' = Inr tx" "py_compile py tx = Inr cx"
    and "ast_parse py ''print('y')'' = Inr ty" "py_compile py ty = Inr cy"
    and "py_exec py cx (exec_globals st) = (None, ns1, ''x\<newline>'')"
    and "py_exec py cy ns1 = (None, ns2, ''y\<newline>'')"
  shows "fst (input py ''py'' st ''A<?py print('x')?>B<?py print('y')?>C'') = None
         \<and> sink_text (snd (input py ''py'' st ''A<?py print('x')?>B<?py print('y')?>C''))
             = sink_text st @ ''Ax\<newline>By\<newline>C''
         \<and> exec_globals (snd (input py ''py'' st ''A<?py print('x')?>B<?py print('y')?>C''))
             = ns2"
  using assms by (simp add: scan_defs split: stream.splits)

theorem scenario_output_witness:
  "fst (input demo_python ''py'' (init OutFile []) ''A<?py print('x')?>B<?py print('y')?>C'')
     = None
   \<and> sink_text (snd (input demo_python ''py'' (init OutFile [])
         ''A<?py print('x')?>B<?py print('y')?>C''))
       = sink_text (init OutFile ([] :: string list)) @ ''Ax\<newline>By\<newline>C''
   \<and> exec_globals (snd (input demo_python ''py'' (init OutFile [])
         ''A<?py print('x')?>B<?py print('y')?>C''))
       = [''print('x')'', ''print('y')'']"
proof -
  have x: "py_exec demo_python ''print('x')'' (exec_globals (init OutFile []))
             = (None, [''print('x')''], ''x\<newline>'')"
    by (simp add: demo_print_x init_def)
  have y: "py_exec demo_python ''print('y')'' [''print('x')'']
             = (None, [''print('x')'', ''print('y')''], ''y\<newline>'')"
    by (simp add: demo_print_y)
  show ?thesis
    by (rule scenario_output [OF demo_print_x(1,2) demo_print_y(1,2) x y])
qed

subsection \<open>A syntax error that the compiler finds\<close>

text \<open>
  Claim C3 does not hold of the code for a syntax error that \<^verbatim>\<open>compile\<close> finds, such as
  \<^verbatim>\<open>return\<close> outside a function. \<^verbatim>\<open>exec_py\<close> wraps what \<^verbatim>\<open>ast.parse\<close> raises and what \<^verbatim>\<open>exec\<close>
  raises in a \<^verbatim>\<open>PythonError\<close>, but it calls \<^verbatim>\<open>compile\<close> outside both \<^verbatim>\<open>try\<close> blocks. In the
  document below the tag begins on line 2 and the error is on line 1 of its source: what
  leaves \<^verbatim>\<open>input\<close> is the bare \<^verbatim>\<open>SyntaxError\<close>, with line 2 from the shifted tree, and no
  \<^verbatim>\<open>PythonError\<close> at all.
\<close>

theorem compile_error_not_wrapped:
  "fst (input demo_python ''py'' (init OutFile []) ''a\<newline><?py return?>'')
     = Some (Propagated (SyntaxError (Some 2) (Some 2)))"
  by (simp add: scan_defs init_def demo_python_def demo_parse_def)

subsection \<open>A tag that is closed and reported as never closed\<close>

text \<open>
  Claim C4 does not hold of the code. The one-line document \<^verbatim>\<open><?py ?>\<close> opens a tag and
  closes it, yet processing it raises the \<^verbatim>\<open>XmlError\<close> for a tag never closed, whatever
  the interpreter: \<^verbatim>\<open>pattern_pi_tag\<close> asks for a body of one character at least, so
  the tag is taken for the opening of a multi-line one, and the rest of its line is put
  in the code buffer without a search for the closing marker.
\<close>

theorem empty_tag_never_closed:
  "fst (input py ''py'' st ''<?py ?>'')
     = Some (XmlError ''processing instruction starting from line 1 was never closed'')"
  by (simp add: scan_defs never_closed_def str_int_def digits.simps)


subsection \<open>One namespace for all snippets\<close>


subsection \<open>Commands run before the documents\<close>

text \<open>
  Claim C6, as the specification states it, fails: \<^verbatim>\<open>main\<close> hands each \<^verbatim>\<open>-c\<close> command to
  \<^verbatim>\<open>exec_py\<close> itself, outside \<^verbatim>\<open>input\<close>, where \<^verbatim>\<open>sys.stdout\<close> is not redirected. What the
  command prints is not captured in the print buffer and not discarded: it is written
  to the standard output of the process.
\<close>

theorem pre_exec_output_counterexample:
  "stdout_text (snd (main_run demo_python ''py'' (init OutFile []) [''print('x')''] [] []))
     = ''x\<newline>''
   \<and> print_buffer (snd (main_run demo_python ''py'' (init OutFile []) [''print('x')''] [] []))
     = []"
  by (simp add: main_run_def scan_defs init_def demo_python_def demo_parse_def demo_exec_def)

text \<open>
  Claim C6, amended. A command given with \<^verbatim>\<open>-c\<close> is run by \<^verbatim>\<open>exec_py\<close> with \<^verbatim>\<open>sys.stdout\<close> as
  the process has it: when the command runs to its end, the text it printed is appended
  to the standard output of the process (which is the output sink too when no output
  file is given), the print buffer is left as it was, the namespace is the one the
  command left, and the documents are then processed from that state.
\<close>

theorem pre_exec_output:
  assumes "ast_parse py c = Inr t" and "py_compile py t = Inr code"
    and "py_exec py code (exec_globals st) = (None, ns', printed)"
    and "sys_stdout st = RealStdout"
  shows "main_run py tgt st [c] inputs stdin
           = main_run py tgt (st\<lparr>exec_globals := ns', stdout_text := stdout_text st @ printed\<rparr>)
               [] inputs stdin"
  using assms by (simp add: main_run_def exec_py_def stdout_write_def)

theorem pre_exec_output_witness:
  "main_run demo_python ''py'' (init Stdout []) [''print('x')''] [] []
     = main_run demo_python ''py''
         ((init Stdout [])\<lparr>exec_globals := [''print('x')''],
                            stdout_text := stdout_text (init Stdout ([] :: string list))
                                 @ ''x\<newline>''\<rparr>)
         [] [] []"
proof -
  have x: "py_exec demo_python ''print('x')'' (exec_globals (init Stdout []))
             = (None, [''print('x')''], ''x\<newline>'')"
    by (simp add: demo_print_x init_def)
  have s: "sys_stdout (init Stdout ([] :: string list)) = RealStdout"
    by (simp add: init_def)
  show ?thesis
    by (rule pre_exec_output [OF demo_print_x(1,2) x s])
qed

subsection \<open>The scenario with a division by zero\<close>

text \<open>
  Claim C7. With any interpreter for which running \<^verbatim>\<open>print(1/0)\<close> raises
  \<^verbatim>\<open>ZeroDivisionError\<close>, processing \<^verbatim>\<open><a><?py print(1/0)?></a>\<close> with the target \<^verbatim>\<open>py\<close> raises
  a \<^verbatim>\<open>PythonError\<close> that wraps this run-time exception, and the output sink receives
  nothing: the snippet is run while the line is substituted, before any part of the
  line is written.
\<close>

theorem division_by_zero:
  assumes "ast_parse py ''print(1/0)'' = Inr t"
    and "py_compile py t = Inr code"
    and "py_exec py code (exec_globals st) = (Some (Exc ''ZeroDivisionError''), ns', printed)"
  shows "fst (input py ''py'' st ''<a><?py print(1/0)?></a>'')
           = Some (PythonError (Exc ''ZeroDivisionError''))
         \<and> sink_text (snd (input py ''py'' st ''<a><?py print(1/0)?></a>'')) = sink_text st"
  using assms by (simp add: scan_defs split: stream.splits)

theorem division_by_zero_witness:
  "fst (input demo_python ''py'' (init OutFile []) ''<a><?py print(1/0)?></a>'')
     = Some (PythonError (Exc ''ZeroDivisionError''))
   \<and> sink_text (snd (input demo_python ''py'' (init OutFile []) ''<a><?py print(1/0)?></a>''))
       = sink_text (init OutFile ([] :: string list))"
proof -
  have e: "py_exec demo_python ''print(1/0)'' (exec_globals (init OutFile []))
             = (Some (Exc ''ZeroDivisionError''), [''print(1/0)''], [])"
    by (simp add: demo_print_div init_def)
  show ?thesis
    by (rule division_by_zero [OF demo_print_div(1,2) e])
qed

subsection \<open>A body that runs past the first closing marker\<close>

text \<open>
  Claim C8 does not hold of the code where the closing marker follows the whitespace at
  once. In \<^verbatim>\<open><?py ?>x?>\<close> the first \<^verbatim>\<open>?>\<close> after the opening ends an empty body, but
  \<^verbatim>\<open>pattern_pi_tag\<close> asks for one character at least and matches up to the second \<^verbatim>\<open>?>\<close>:
  the source handed to the interpreter is \<^verbatim>\<open>?>x\<close>. (For a body of one character or more
  the first closing marker after it wins: \<open>match_pi_tag_decomp\<close>.)
\<close>

theorem body_past_first_close:
  "match_pi_tag ''py'' ''<?py ?>x?>'' = Some (''?>x'', [])
   \<and> exec_globals (snd (input log_python ''py'' (init OutFile []) ''<?py ?>x?>'')) = [''?>x'']"
  by (simp add: scan_defs init_def log_python_def)

subsection \<open>The whitespace after the target\<close>

text \<open>
  Claim C9, as the specification states it, fails for a tag that is not closed on its
  line: \<^verbatim>\<open>beg_pos = m.end(0) - 1\<close> is the place of the whitespace character after the
  target, and the code buffer is filled from there. The source handed to the
  interpreter for the tag below starts with that character.
\<close>

theorem whitespace_after_target_counterexample:
  "exec_globals (snd (input log_python ''py'' (init OutFile []) ''<?py x = 1\<newline>?>''))
     = ['' x = 1\<newline>'']"
  by (simp add: scan_defs init_def log_python_def)

text \<open>
  Claim C9, amended. A tag opening is recognised only where the target is followed by
  a whitespace character: a match of \<^verbatim>\<open>pattern_pi_beg\<close> is the opening marker, whitespace,
  the target and one whitespace character, with which it ends. For a tag closed on its
  line that character stands before the group that is run, so it is no part of the
  source. For a tag left open on its line the code buffer, of which the source is
  made, starts with that character.
\<close>

theorem whitespace_after_target:
  "(search_pi_beg tgt line = Some (i, e) \<longrightarrow>
      (\<exists>ws w r. drop i line = ''<?'' @ ws @ tgt @ w # r \<and> is_space w
          \<and> drop (e - 1) line = w # r))
   \<and> (match_pi_tag tgt s = Some (body, rest) \<longrightarrow>
      (\<exists>ws w. s = ''<?'' @ ws @ tgt @ w # body @ ''?>'' @ rest \<and> is_space w))
   \<and> (\<not> in_pi_tag sc \<and> scan_rest py tgt st sc line' = (None, st', sc') \<and> in_pi_tag sc' \<longrightarrow>
      (\<exists>w x. code_buffer st' = w # x \<and> is_space w))"
proof (intro conjI impI)
  assume "search_pi_beg tgt line = Some (i, e)"
  then show "\<exists>ws w r. drop i line = ''<?'' @ ws @ tgt @ w # r \<and> is_space w
          \<and> drop (e - 1) line = w # r"
    by (rule search_pi_beg_decomp)
next
  assume "match_pi_tag tgt s = Some (body, rest)"
  from match_pi_tag_decomp [OF this]
  show "\<exists>ws w. s = ''<?'' @ ws @ tgt @ w # body @ ''?>'' @ rest \<and> is_space w"
    by blast
next
  assume "\<not> in_pi_tag sc \<and> scan_rest py tgt st sc line' = (None, st', sc') \<and> in_pi_tag sc'"
  then show "\<exists>w x. code_buffer st' = w # x \<and> is_space w"
    by (blast intro: scan_rest_opens)
qed

theorem whitespace_after_target_witness:
  "search_pi_beg ''py'' ''a<?py x'' = Some (1, 6)
   \<and> (\<exists>ws w r. drop 1 ''a<?py x'' = ''<?'' @ ws @ ''py'' @ w # r \<and> is_space w
         \<and> drop (6 - 1) ''a<?py x'' = w # r)
   \<and> match_pi_tag ''py'' ''<?py x?>b'' = Some (''x'', ''b'')
   \<and> (\<exists>ws w. ''<?py x?>b'' = ''<?'' @ ws @ ''py'' @ w # ''x'' @ ''?>'' @ ''b'' \<and> is_space w)
   \<and> (\<exists>w x. code_buffer (fst (snd (scan_rest log_python ''py'' (init OutFile [])
                 \<lparr>line_num = 1, in_pi_tag = False, this_pi_tag_beg_ln = 0\<rparr> ''a<?py x'')))
               = w # x \<and> is_space w)"
proof -
  let ?sc = "\<lparr>line_num = 1, in_pi_tag = False, this_pi_tag_beg_ln = 0\<rparr>"
  let ?R = "scan_rest log_python ''py'' (init OutFile ([] :: string list)) ?sc ''a<?py x''"
  note inst = whitespace_after_target [of "''py''" "''a<?py x''" 1 6 "''<?py x?>b''" "''x''" "''b''"
      ?sc log_python "init OutFile []" "''a<?py x''" "fst (snd ?R)" "snd (snd ?R)"]
  have h1: "search_pi_beg ''py'' ''a<?py x'' = Some (1, 6)"
    by (simp add: match_pi_beg_def target_at_def is_space_def)
  have h2: "match_pi_tag ''py'' ''<?py x?>b'' = Some (''x'', ''b'')"
    by (simp add: match_pi_tag_def target_at_def is_space_def newline_def)
  have r: "fst ?R = None \<and> in_pi_tag (snd (snd ?R))"
    by (simp add: scan_defs)
  then have h3: "\<not> in_pi_tag ?sc \<and> ?R = (None, fst (snd ?R), snd (snd ?R)) \<and> in_pi_tag (snd (snd ?R))"
    by (simp add: prod_eq_iff)
  from inst h1 h2 h3 show ?thesis by blast
qed

subsection \<open>Whitespace between the opening marker and the target\<close>

text \<open>
  Claim C10, as stated for any run of whitespace, fails when the run holds a line break:
  the document is read line by line and the patterns are tried on one line at a time,
  so \<^verbatim>\<open><?\<close>, a line break and \<^verbatim>\<open>py x?>\<close> is no tag and nothing is run, while \<^verbatim>\<open><?py x?>\<close> runs
  \<^verbatim>\<open>x\<close>.
\<close>

theorem space_before_target_counterexample:
  "exec_globals (snd (input log_python ''py'' (init OutFile []) ''<?\<newline>py x?>'')) = []
   \<and> exec_globals (snd (input log_python ''py'' (init OutFile []) ''<?py x?>'')) = [''x'']"
  by (simp add: scan_defs init_def log_python_def)

text \<open>
  Claim C10, amended. Whitespace without a line break between the opening marker and
  the target changes nothing: where the lines before are read without error and end
  outside a tag, and no \<^verbatim>\<open><?\<close> stands before on the line, a document with \<^verbatim>\<open><?\<close>, a run \<open>ws\<close> of
  such whitespace, the target and a whitespace character is processed exactly as the
  document without \<open>ws\<close>: same error or none, same output, same namespace, whether the tag
  is closed on its line or not. The target is an identifier: no whitespace and no \<^verbatim>\<open><\<close> in
  it.
\<close>

theorem space_before_target:
  assumes tgt: "tgt \<noteq> []" "\<forall>c \<in> set tgt. \<not> is_space c \<and> c \<noteq> CHR ''<''"
    and pre: "pre = [] \<or> last pre = newline" "fst (input py tgt st pre) = None"
    and a: "newline \<notin> set a" "str_find a ''<?'' = None"
    and ws: "\<forall>c \<in> set ws. is_space c \<and> c \<noteq> newline"
    and w: "is_space w"
  shows "input py tgt st (pre @ a @ ''<?'' @ ws @ tgt @ w # r)
           = input py tgt st (pre @ a @ ''<?'' @ tgt @ w # r)"
proof -
  let ?sc0 = "\<lparr>line_num = 0, in_pi_tag = False, this_pi_tag_beg_ln = 0\<rparr>"
  let ?st0 = "st\<lparr>sys_stdout := PrintBuffer\<rparr>"
  from tgt(2) is_space_newline have nt: "newline \<notin> set tgt" by blast
  from ws have sp: "\<forall>c \<in> set ws. is_space c" and nw: "newline \<notin> set ws" by auto
  obtain l ls where rl: "readlines (w # r) = l # ls"
    using readlines_Cons_not_Nil [of w r] by (cases "readlines (w # r)") auto
  from readlines_first_char [OF rl] obtain x where l: "l = w # x" by blast
  have "newline \<notin> set (a @ ''<?'' @ ws @ tgt)" using a(1) nw nt by (auto simp: newline_def)
  from readlines_no_break [OF this, of "w # r"] rl l
  have r1: "readlines (a @ ''<?'' @ ws @ tgt @ w # r) = (a @ ''<?'' @ ws @ tgt @ w # x) # ls"
    by simp
  have "newline \<notin> set (a @ ''<?'' @ tgt)" using a(1) nt by (auto simp: newline_def)
  from readlines_no_break [OF this, of "w # r"] rl l
  have r2: "readlines (a @ ''<?'' @ tgt @ w # r) = (a @ ''<?'' @ [] @ tgt @ w # x) # ls"
    by simp
  from input_NoneD [OF pre(2)] obtain st1 sc1 where
    p: "input_lines py tgt ?st0 ?sc0 (readlines pre) = (None, st1, sc1)" "\<not> in_pi_tag sc1"
    by blast
  have il: "input_line py tgt st1 sc1 (a @ ''<?'' @ ws @ tgt @ w # x)
              = input_line py tgt st1 sc1 (a @ ''<?'' @ [] @ tgt @ w # x)"
  proof -
    have n: "\<not> in_pi_tag (sc1\<lparr>line_num := line_num sc1 + 1\<rparr>)" using p(2) by simp
    show ?thesis
      unfolding input_line_def Let_def
      by (simp only: n if_False scan_rest_ws [OF tgt sp w a(2)])
  qed
  have "input_lines py tgt ?st0 ?sc0 (readlines (pre @ a @ ''<?'' @ ws @ tgt @ w # r))
          = input_lines py tgt ?st0 ?sc0 (readlines (pre @ a @ ''<?'' @ tgt @ w # r))"
    unfolding readlines_append [OF pre(1)] input_lines_append p(1) r1 r2
    by (simp only: prod.case option.case input_lines.simps il)
  then show ?thesis unfolding input_def Let_def by (simp only:)
qed

theorem space_before_target_witness:
  "input log_python ''py'' (init OutFile []) ''A<? py x = 1?>B''
     = input log_python ''py'' (init OutFile []) ''A<?py x = 1?>B''"
proof -
  let ?st = "init OutFile ([] :: string list)"
  have t: "''py'' \<noteq> []" "\<forall>c \<in> set ''py''. \<not> is_space c \<and> c \<noteq> CHR ''<''"
    by (simp_all add: is_space_def)
  have p: "([] :: string) = [] \<or> last [] = newline" by simp
  have q: "fst (input log_python ''py'' ?st []) = None"
    by (simp add: scan_defs)
  have a: "newline \<notin> set ''A''" "str_find ''A'' ''<?'' = None"
    by (simp_all add: newline_def)
  have ws: "\<forall>c \<in> set '' ''. is_space c \<and> c \<noteq> newline"
    by (simp add: is_space_def newline_def)
  have w: "is_space (CHR '' '')" by (simp add: is_space_def)
  show ?thesis
    using space_before_target [OF t p q a ws w, of "''x = 1?>B''"] by simp
qed

end
